theory Spec2Isabelle
  imports Complex_Main "HOL-Library.Word"
begin

section \<open>Data model\<close>

text \<open>
  The generator \<^verbatim>\<open>sienna_test_gen_script.py\<close> computes golden vectors for the pipeline
  matrix multiply, activation, 2D max-pool, dropout, and writes them as hex-encoded 32-bit
  floats. Exceptions raised by Python and numpy are values of \<open>py_error\<close>; a function that
  can raise returns \<open>py_error + 'a\<close>.
\<close>

datatype py_error = ValueError | StructError | ZeroDivisionError | IndexError

text \<open>
  A float32 is represented by its IEEE-754 bit pattern, a 32-bit word; \<open>0x00000000\<close> is
  \<open>0.0\<close>, \<open>0x80000000\<close> is \<open>-0.0\<close>, \<open>0x7f800000\<close> is \<open>+Infinity\<close> and \<open>0x7fc00000\<close> a NaN.
\<close>

type_synonym byte = "8 word"
type_synonym float32 = "32 word"

section \<open>Float codec\<close>

text \<open>The digits of Python's \<^verbatim>\<open>x\<close> format: lowercase hexadecimal.\<close>

definition hex_digit :: "nat \<Rightarrow> char" where
  "hex_digit d = ''0123456789abcdef'' ! d"

fun hex_digits :: "nat \<Rightarrow> string" where
  "hex_digits n = (if n < 16 then [hex_digit n] else hex_digits (n div 16) @ [hex_digit (n mod 16)])"

text \<open>\<^verbatim>\<open>f"{b:02x}"\<close>: the hexadecimal digits of \<open>b\<close>, padded with zeros on the left to width 2.\<close>

definition format_02x :: "nat \<Rightarrow> string" where
  "format_02x b = (let ds = hex_digits b in replicate (2 - length ds) CHR ''0'' @ ds)"

text \<open>
  A float32 is a NaN when its exponent field (bits 23 to 30) is all ones and its fraction
  field (bits 0 to 22) is not zero; the NaN is signalling when bit 22, the top bit of the
  fraction, is clear, and quiet when it is set.
\<close>

definition is_nan :: "float32 \<Rightarrow> bool" where
  "is_nan f = (take_bit 8 (drop_bit 23 f) = 255 \<and> take_bit 23 f \<noteq> 0)"

definition is_signalling_nan :: "float32 \<Rightarrow> bool" where
  "is_signalling_nan f = (is_nan f \<and> \<not> bit f 22)"

text \<open>
  Python's \<^verbatim>\<open>struct\<close> module handles a float as a C double: \<^verbatim>\<open>struct.pack(">f", f)\<close>
  converts \<open>f\<close> to a double and the double to a float32, and \<^verbatim>\<open>struct.unpack(">f", bs)\<close>
  returns the float32 converted to a double. On CPython (x86-64) each of these conversions
  turns a signalling NaN into the quiet NaN of the same sign and payload, by setting bit 22,
  and keeps every other float32 value. The Python float that \<^verbatim>\<open>struct.unpack\<close> returns holds
  a float32 value and is represented by the bit pattern of that value.
\<close>

definition quiet_nan :: "float32 \<Rightarrow> float32" where
  "quiet_nan f = (if is_nan f then set_bit 22 f else f)"

text \<open>The four bytes of a bit pattern, most significant first, and the pattern of four bytes.\<close>

definition float_bytes :: "float32 \<Rightarrow> byte list" where
  "float_bytes f = [ucast (drop_bit 24 f), ucast (drop_bit 16 f), ucast (drop_bit 8 f), ucast f]"

definition bytes_float :: "byte list \<Rightarrow> float32" where
  "bytes_float bs = of_nat (foldl (\<lambda>acc b. acc * 256 + unat b) 0 bs)"

text \<open>\<^verbatim>\<open>struct.pack(">f", f)\<close>: the four bytes of the float, after the conversion.\<close>

definition struct_pack_f :: "float32 \<Rightarrow> byte list" where
  "struct_pack_f f = float_bytes (quiet_nan f)"

definition float_to_hex :: "float32 \<Rightarrow> string" where
  "float_to_hex f = concat (map (\<lambda>b. format_02x (unat b)) (struct_pack_f f))"

text \<open>
  \<^verbatim>\<open>bytes.fromhex\<close> reads two hexadecimal digits per byte, of either case, and skips ASCII
  whitespace in front of each pair of digits and at the end. Any other character, and a
  pair cut short, raise \<^verbatim>\<open>ValueError\<close>.
\<close>

definition is_space :: "char \<Rightarrow> bool" where
  "is_space c = (let n = (of_char c :: nat) in (9 \<le> n \<and> n \<le> 13) \<or> n = 32)"

definition digit_value :: "char \<Rightarrow> nat option" where
  "digit_value c = (let n = (of_char c :: nat) in
     if 48 \<le> n \<and> n \<le> 57 then Some (n - 48)
     else if 97 \<le> n \<and> n \<le> 102 then Some (n - 87)
     else if 65 \<le> n \<and> n \<le> 70 then Some (n - 55)
     else None)"

fun bytes_fromhex :: "string \<Rightarrow> py_error + byte list" where
  "bytes_fromhex [] = Inr []"
| "bytes_fromhex (c # cs) =
     (if is_space c then bytes_fromhex cs
      else case digit_value c of
        None \<Rightarrow> Inl ValueError
      | Some hi \<Rightarrow>
          (case cs of
            [] \<Rightarrow> Inl ValueError
          | d # ds \<Rightarrow>
              (case digit_value d of
                None \<Rightarrow> Inl ValueError
              | Some lo \<Rightarrow>
                  (case bytes_fromhex ds of
                    Inl e \<Rightarrow> Inl e
                  | Inr bs \<Rightarrow> Inr (of_nat (hi * 16 + lo) # bs)))))"

text \<open>
  \<^verbatim>\<open>struct.unpack(">f", bs)[0]\<close>: \<^verbatim>\<open>struct.error\<close> unless there are exactly four bytes,
  which are then read as a float32, most significant byte first, and converted.
\<close>

definition struct_unpack_f :: "byte list \<Rightarrow> py_error + float32" where
  "struct_unpack_f bs =
     (if length bs \<noteq> 4 then Inl StructError else Inr (quiet_nan (bytes_float bs)))"

definition hex_to_float :: "string \<Rightarrow> py_error + float32" where
  "hex_to_float hex_str =
     (case bytes_fromhex hex_str of
        Inl e \<Rightarrow> Inl e
      | Inr bs \<Rightarrow> struct_unpack_f bs)"

text \<open>Vocabulary for the codec's properties.\<close>

definition is_hex :: "char \<Rightarrow> bool" where
  "is_hex c = (digit_value c \<noteq> None)"

definition is_lower_hex :: "char \<Rightarrow> bool" where
  "is_lower_hex c = (c \<in> set ''0123456789abcdef'')"

text \<open>The number a string of hexadecimal digits denotes, first digit most significant.\<close>

definition hex_denotation :: "string \<Rightarrow> nat" where
  "hex_denotation s =
     foldl (\<lambda>acc c. acc * 16 + (case digit_value c of Some d \<Rightarrow> d | None \<Rightarrow> 0)) 0 s"

text \<open>
  The maximal runs of characters of a string that are not ASCII whitespace, in order: the
  pieces of the string between its whitespace.
\<close>

function nonspace_runs :: "string \<Rightarrow> string list" where
  "nonspace_runs [] = []"
| "nonspace_runs (c # cs) =
     (if is_space c then nonspace_runs cs
      else (c # takeWhile (\<lambda>x. \<not> is_space x) cs)
             # nonspace_runs (dropWhile (\<lambda>x. \<not> is_space x) cs))"
  by pat_completeness auto
termination
  by (relation "measure length") (auto simp: length_dropWhile_le less_Suc_eq_le)

text \<open>
  A string is well paired when each of its runs is made of hexadecimal digits and has an even
  length: the digits come in whole pairs, and whitespace stands only around the pairs.
\<close>

definition well_paired :: "string \<Rightarrow> bool" where
  "well_paired s = list_all (\<lambda>w. list_all is_hex w \<and> even (length w)) (nonspace_runs s)"

section \<open>Two-dimensional arrays\<close>

text \<open>
  A 2D numpy array is its list of rows together with the number of columns, which numpy
  keeps in the shape even when there are no rows. Every row of an array has \<open>ncols\<close>
  elements (\<open>wf_array\<close>). The arrays are polymorphic in their elements. Max pooling and the
  activation need the elements ordered, as the numeric values of floats that are not NaN
  are; dropout in training mode is also run on elements with NaN and infinities, below.
\<close>

datatype 'a array2d = Array2d (ncols: nat) (rows: "'a list list")

definition nrows :: "'a array2d \<Rightarrow> nat" where
  "nrows a = length (rows a)"

definition shape :: "'a array2d \<Rightarrow> nat \<times> nat" where
  "shape a = (nrows a, ncols a)"

definition wf_array :: "'a array2d \<Rightarrow> bool" where
  "wf_array a = list_all (\<lambda>r. length r = ncols a) (rows a)"

definition cell :: "'a array2d \<Rightarrow> nat \<Rightarrow> nat \<Rightarrow> 'a" where
  "cell a i j = rows a ! i ! j"

text \<open>\<^verbatim>\<open>a.flatten()\<close>: the elements in row-major order.\<close>

definition flatten :: "'a array2d \<Rightarrow> 'a list" where
  "flatten a = concat (rows a)"

definition map_array :: "('a \<Rightarrow> 'b) \<Rightarrow> 'a array2d \<Rightarrow> 'b array2d" where
  "map_array f a = Array2d (ncols a) (map (map f) (rows a))"

text \<open>\<^verbatim>\<open>output[i, j] = v\<close>, for \<open>i\<close> and \<open>j\<close> in range (the loops below never leave it).\<close>

definition set_cell :: "'a array2d \<Rightarrow> nat \<Rightarrow> nat \<Rightarrow> 'a \<Rightarrow> 'a array2d" where
  "set_cell a i j v = Array2d (ncols a) ((rows a)[i := (rows a ! i)[j := v]])"

text \<open>
  \<^verbatim>\<open>np.zeros((h, w))\<close> raises \<^verbatim>\<open>ValueError\<close> for a negative dimension and returns an
  empty array for a dimension 0.
\<close>

definition np_zeros :: "int \<Rightarrow> int \<Rightarrow> py_error + 'a::zero array2d" where
  "np_zeros h w =
     (if h < 0 \<or> w < 0 then Inl ValueError
      else Inr (Array2d (nat w) (replicate (nat h) (replicate (nat w) 0))))"

text \<open>
  \<^verbatim>\<open>np.pad(a, p, mode="constant", constant_values=0)\<close>: \<open>p\<close> rows and columns of zeros on
  each of the four sides.
\<close>

definition np_pad :: "'a::zero array2d \<Rightarrow> nat \<Rightarrow> 'a array2d" where
  "np_pad a p =
     (let w = ncols a + 2 * p in
      Array2d w
        (replicate p (replicate w 0)
         @ map (\<lambda>r. replicate p 0 @ r @ replicate p 0) (rows a)
         @ replicate p (replicate w 0)))"

text \<open>
  Python's slice \<^verbatim>\<open>xs[start:stop]\<close> on a sequence of \<open>n\<close> elements: a negative bound counts
  from the end, both bounds are clipped to \<open>0..n\<close>, and the slice is empty when the stop is
  not after the start. The result is the first index and the number of elements.
\<close>

definition slice_indices :: "nat \<Rightarrow> int \<Rightarrow> int \<Rightarrow> nat \<times> nat" where
  "slice_indices n start stop =
     (let l = int n;
          s = (if start < 0 then max 0 (start + l) else min start l);
          e = (if stop < 0 then max 0 (stop + l) else min stop l)
      in (nat s, nat (e - s)))"

definition py_slice :: "'a list \<Rightarrow> int \<Rightarrow> int \<Rightarrow> 'a list" where
  "py_slice xs start stop =
     (case slice_indices (length xs) start stop of (s, k) \<Rightarrow> take k (drop s xs))"

text \<open>\<^verbatim>\<open>a[r0:r1, c0:c1]\<close>.\<close>

definition slice2d :: "'a array2d \<Rightarrow> int \<Rightarrow> int \<Rightarrow> int \<Rightarrow> int \<Rightarrow> 'a array2d" where
  "slice2d a r0 r1 c0 c1 =
     Array2d (snd (slice_indices (ncols a) c0 c1))
       (map (\<lambda>r. py_slice r c0 c1) (py_slice (rows a) r0 r1))"

text \<open>\<^verbatim>\<open>np.max(window)\<close>: the largest element; \<^verbatim>\<open>ValueError\<close> on an array without elements.\<close>

definition np_max :: "'a::linorder array2d \<Rightarrow> py_error + 'a" where
  "np_max window =
     (case flatten window of
        [] \<Rightarrow> Inl ValueError
      | x # xs \<Rightarrow> Inr (fold max xs x))"

text \<open>Python's \<^verbatim>\<open>a // b\<close> on integers: floor division, \<^verbatim>\<open>ZeroDivisionError\<close> when \<open>b = 0\<close>.\<close>

definition floor_div :: "int \<Rightarrow> int \<Rightarrow> py_error + int" where
  "floor_div a b = (if b = 0 then Inl ZeroDivisionError else Inr (a div b))"

section \<open>Max pooling\<close>

text \<open>
  The inner loop \<^verbatim>\<open>for j in range(out_w)\<close> of \<open>apply_maxpool_2d\<close>, on the columns still to
  visit: it takes the window of the input at row \<open>i * stride_h\<close> and column \<open>j * stride_w\<close>
  and stores its maximum in \<open>output[i, j]\<close>.
\<close>

fun maxpool_cols ::
  "'a::linorder array2d \<Rightarrow> int \<Rightarrow> int \<Rightarrow> int \<Rightarrow> int \<Rightarrow> nat \<Rightarrow> nat list \<Rightarrow> 'a array2d
    \<Rightarrow> py_error + 'a array2d" where
  "maxpool_cols input_matrix pool_h pool_w stride_h stride_w i [] output = Inr output"
| "maxpool_cols input_matrix pool_h pool_w stride_h stride_w i (j # js) output =
     (let h_start = int i * stride_h;
          w_start = int j * stride_w;
          window = slice2d input_matrix h_start (h_start + pool_h) w_start (w_start + pool_w)
      in case np_max window of
           Inl e \<Rightarrow> Inl e
         | Inr v \<Rightarrow>
             maxpool_cols input_matrix pool_h pool_w stride_h stride_w i js
               (set_cell output i j v))"

text \<open>The outer loop \<^verbatim>\<open>for i in range(out_h)\<close>, on the rows still to visit.\<close>

fun maxpool_rows ::
  "'a::linorder array2d \<Rightarrow> int \<Rightarrow> int \<Rightarrow> int \<Rightarrow> int \<Rightarrow> nat list \<Rightarrow> nat list \<Rightarrow> 'a array2d
    \<Rightarrow> py_error + 'a array2d" where
  "maxpool_rows input_matrix pool_h pool_w stride_h stride_w [] js output = Inr output"
| "maxpool_rows input_matrix pool_h pool_w stride_h stride_w (i # is) js output =
     (case maxpool_cols input_matrix pool_h pool_w stride_h stride_w i js output of
        Inl e \<Rightarrow> Inl e
      | Inr output' \<Rightarrow>
          maxpool_rows input_matrix pool_h pool_w stride_h stride_w is js output')"

text \<open>
  \<open>apply_maxpool_2d\<close>: a stride that is \<^verbatim>\<open>None\<close> defaults to the window size; the input is
  padded with zeros when \<open>padding > 0\<close>; the output dimensions are computed with floor
  division, the output is allocated with \<^verbatim>\<open>np.zeros\<close> and filled cell by cell.
\<close>

definition apply_maxpool_2d ::
  "'a::{linorder,zero} array2d \<Rightarrow> int \<Rightarrow> int \<Rightarrow> int option \<Rightarrow> int option \<Rightarrow> int
    \<Rightarrow> py_error + 'a array2d" where
  "apply_maxpool_2d input_matrix pool_h pool_w stride_h stride_w padding =
     (let stride_h = (case stride_h of None \<Rightarrow> pool_h | Some s \<Rightarrow> s);
          stride_w = (case stride_w of None \<Rightarrow> pool_w | Some s \<Rightarrow> s);
          input_matrix = (if padding > 0 then np_pad input_matrix (nat padding) else input_matrix);
          in_h = int (nrows input_matrix);
          in_w = int (ncols input_matrix)
      in case floor_div (in_h - pool_h) stride_h of
           Inl e \<Rightarrow> Inl e
         | Inr qh \<Rightarrow>
             (case floor_div (in_w - pool_w) stride_w of
                Inl e \<Rightarrow> Inl e
              | Inr qw \<Rightarrow>
                  (let out_h = qh + 1; out_w = qw + 1 in
                   case np_zeros out_h out_w of
                     Inl e \<Rightarrow> Inl e
                   | Inr output \<Rightarrow>
                       maxpool_rows input_matrix pool_h pool_w stride_h stride_w
                         [0..<nat out_h] [0..<nat out_w] output)))"

section \<open>The numeric library\<close>

text \<open>
  Floating-point arithmetic and the random generator of numpy are parameters of the model:
  a record of the library's primitives. The type \<open>'g\<close> is the state of numpy's global
  random generator \<^verbatim>\<open>np.random\<close>; every sampling primitive draws one value from a state and
  returns the state that follows.
\<close>

record ('a, 'g) numpy =
  random_seed :: "int \<Rightarrow> 'g"
  random_uniform :: "'a \<Rightarrow> 'a \<Rightarrow> 'g \<Rightarrow> 'a \<times> 'g"
  random_randint :: "int \<Rightarrow> int \<Rightarrow> 'g \<Rightarrow> int \<times> 'g"
  binomial_valid :: "'a \<Rightarrow> bool"
  random_binomial :: "'a \<Rightarrow> 'g \<Rightarrow> nat \<times> 'g"
  float_of_int :: "int \<Rightarrow> 'a"
  float_dot :: "'a list \<Rightarrow> 'a list \<Rightarrow> 'a"
  float_sigmoid :: "'a \<Rightarrow> 'a"
  float_tanh :: "'a \<Rightarrow> 'a"
  float_sub :: "'a \<Rightarrow> 'a \<Rightarrow> 'a"
  float_mul :: "'a \<Rightarrow> 'a \<Rightarrow> 'a"
  float_div :: "'a \<Rightarrow> 'a \<Rightarrow> 'a"
  float_bits :: "'a \<Rightarrow> float32"

text \<open>
  \<open>random_seed s\<close> is the state after \<^verbatim>\<open>np.random.seed(s)\<close>;
  \<open>random_uniform lo hi\<close> and \<open>random_randint lo hi\<close> draw one sample;
  \<open>random_binomial q\<close> draws one sample of \<^verbatim>\<open>binomial(1, q)\<close>, and \<open>binomial_valid q\<close> says
  that \<open>q\<close> is a probability (numpy raises \<^verbatim>\<open>ValueError\<close> otherwise); \<open>float_of_int\<close> is the
  conversion of an integer to a float; \<open>float_sub\<close>, \<open>float_mul\<close> and \<open>float_div\<close> are the
  floating-point \<^verbatim>\<open>-\<close>, \<^verbatim>\<open>*\<close> and \<^verbatim>\<open>/\<close>; \<open>float_dot\<close> is the float32 dot product of a row and
  a column; \<open>float_sigmoid x\<close> is \<^verbatim>\<open>1 / (1 + np.exp(-np.clip(x, -500, 500)))\<close>; \<open>float_tanh\<close>
  is \<^verbatim>\<open>np.tanh\<close>; \<open>float_bits\<close> is the bit pattern of a value.
\<close>

text \<open>\<^verbatim>\<open>np.random.seed(seed)\<close> accepts the integers from 0 to \<open>2^32 - 1\<close>.\<close>

definition np_random_seed :: "('a, 'g) numpy \<Rightarrow> int \<Rightarrow> py_error + 'g" where
  "np_random_seed np s =
     (if 0 \<le> s \<and> s < 2 ^ 32 then Inr (random_seed np s) else Inl ValueError)"

text \<open>Sampling an array: its elements are drawn one after the other, in row-major order.\<close>

fun draw_list :: "('g \<Rightarrow> 'b \<times> 'g) \<Rightarrow> nat \<Rightarrow> 'g \<Rightarrow> 'b list \<times> 'g" where
  "draw_list d 0 g = ([], g)"
| "draw_list d (Suc k) g =
     (case d g of (x, g1) \<Rightarrow>
        (case draw_list d k g1 of (xs, g2) \<Rightarrow> (x # xs, g2)))"

fun draw_rows :: "('g \<Rightarrow> 'b \<times> 'g) \<Rightarrow> nat \<Rightarrow> nat \<Rightarrow> 'g \<Rightarrow> 'b list list \<times> 'g" where
  "draw_rows d 0 w g = ([], g)"
| "draw_rows d (Suc h) w g =
     (case draw_list d w g of (r, g1) \<Rightarrow>
        (case draw_rows d h w g1 of (rs, g2) \<Rightarrow> (r # rs, g2)))"

definition draw_array :: "('g \<Rightarrow> 'b \<times> 'g) \<Rightarrow> nat \<Rightarrow> nat \<Rightarrow> 'g \<Rightarrow> 'b array2d \<times> 'g" where
  "draw_array d h w g = (case draw_rows d h w g of (rs, g') \<Rightarrow> (Array2d w rs, g'))"

text \<open>\<^verbatim>\<open>np.eye(n)\<close> and \<^verbatim>\<open>np.ones((n, n))\<close>, for \<open>n\<close> not negative.\<close>

definition np_eye :: "nat \<Rightarrow> 'a::{zero,one} array2d" where
  "np_eye n = Array2d n (map (\<lambda>i. map (\<lambda>j. if i = j then 1 else 0) [0..<n]) [0..<n])"

definition np_ones :: "nat \<Rightarrow> 'a::one array2d" where
  "np_ones n = Array2d n (replicate n (replicate n 1))"

text \<open>
  \<^verbatim>\<open>np.matmul(A, B).astype(np.float32)\<close>: the dot product of every row of \<open>A\<close> with every
  column of \<open>B\<close>; \<^verbatim>\<open>ValueError\<close> when the inner dimensions differ.
\<close>

definition columns :: "'a array2d \<Rightarrow> 'a list list" where
  "columns b = map (\<lambda>j. map (\<lambda>r. r ! j) (rows b)) [0..<ncols b]"

definition np_matmul :: "('a, 'g) numpy \<Rightarrow> 'a array2d \<Rightarrow> 'a array2d \<Rightarrow> py_error + 'a array2d" where
  "np_matmul np a b =
     (if ncols a \<noteq> nrows b then Inl ValueError
      else Inr (Array2d (ncols b) (map (\<lambda>r. map (\<lambda>c. float_dot np r c) (columns b)) (rows a))))"

section \<open>Activation and dropout\<close>

definition apply_activation ::
  "('a::{linorder,zero}, 'g) numpy \<Rightarrow> 'a array2d \<Rightarrow> string \<Rightarrow> 'a array2d" where
  "apply_activation np x activation_type =
     (if activation_type = ''relu'' then map_array (max 0) x
      else if activation_type = ''sigmoid'' then map_array (float_sigmoid np) x
      else if activation_type = ''tanh'' then map_array (float_tanh np) x
      else if activation_type = ''none'' then x
      else x)"

text \<open>
  \<open>apply_dropout\<close>, on the state \<open>g\<close> of the global random generator. In training mode the
  generator is seeded when a seed is given, the mask is drawn with
  \<^verbatim>\<open>np.random.binomial(1, 1 - dropout_p, size=x.shape)\<close> and the result is
  \<^verbatim>\<open>x * mask / (1 - dropout_p)\<close>, element by element; in inference mode the input is returned
  and the generator is not touched.
\<close>

definition apply_dropout ::
  "('a, 'g) numpy \<Rightarrow> 'a array2d \<Rightarrow> 'a \<Rightarrow> bool \<Rightarrow> int option \<Rightarrow> 'g
    \<Rightarrow> py_error + ('a array2d \<times> 'g)" where
  "apply_dropout np x dropout_p training_mode seed g =
     (if training_mode then
        (case (case seed of None \<Rightarrow> Inr g | Some s \<Rightarrow> np_random_seed np s) of
           Inl e \<Rightarrow> Inl e
         | Inr g1 \<Rightarrow>
             if \<not> binomial_valid np (float_sub np (float_of_int np 1) dropout_p)
             then Inl ValueError
             else
               (case draw_array (random_binomial np (float_sub np (float_of_int np 1) dropout_p))
                       (nrows x) (ncols x) g1 of
                  (mask', g2) \<Rightarrow>
                    Inr (Array2d (ncols x)
                           (map2 (map2 (\<lambda>v m.
                                    float_div np (float_mul np v (float_of_int np (int m)))
                                      (float_sub np (float_of_int np 1) dropout_p)))
                              (rows x) (rows mask')),
                         g2)))
      else Inr (x, g))"

section \<open>The pipeline\<close>

text \<open>The parameters of \<open>generate_pipeline_test_vectors\<close> (the output directory apart).\<close>

record 'a pipeline_config =
  cfg_n :: int
  cfg_activation_type :: string
  cfg_pool_h :: int
  cfg_pool_w :: int
  cfg_pool_padding :: int
  cfg_dropout_p :: 'a
  cfg_seed :: "int option"
  cfg_matrix_type :: string
  cfg_value_range :: "'a \<times> 'a"

text \<open>The dictionary the function returns.\<close>

record 'a pipeline_result =
  res_A :: "'a array2d"
  res_B :: "'a array2d"
  res_matmul :: "'a array2d"
  res_activated :: "'a array2d"
  res_pooled :: "'a array2d"
  res_final :: "'a array2d"

text \<open>
  The lines of the three files of hex-encoded floats: \<^verbatim>\<open>matrix_north.txt\<close>,
  \<^verbatim>\<open>matrix_west.txt\<close> and \<^verbatim>\<open>expected_output.txt\<close>. The free-form debug file and the console
  output are not modelled.
\<close>

record output_files =
  north_file :: "string list"
  west_file :: "string list"
  expected_file :: "string list"

text \<open>Step 1: the two input matrices, drawn from the generator state when they are random.\<close>

definition generate_matrices ::
  "('a::{zero,one}, 'g) numpy \<Rightarrow> 'a pipeline_config \<Rightarrow> 'g
    \<Rightarrow> py_error + ('a array2d \<times> 'a array2d \<times> 'g)" where
  "generate_matrices np cfg g =
     (if cfg_n cfg < 0 then Inl ValueError
      else
        (let n = nat (cfg_n cfg) in
         if cfg_matrix_type cfg = ''identity'' then Inr (np_eye n, np_eye n, g)
         else if cfg_matrix_type cfg = ''ones'' then Inr (np_ones n, np_ones n, g)
         else if cfg_matrix_type cfg = ''small_int'' then
           (case draw_array (random_randint np (- 3) 4) n n g of (a, g1) \<Rightarrow>
              (case draw_array (random_randint np (- 3) 4) n n g1 of (b, g2) \<Rightarrow>
                 Inr (map_array (float_of_int np) a, map_array (float_of_int np) b, g2)))
         else
           (case draw_array (random_uniform np (fst (cfg_value_range cfg))
                   (snd (cfg_value_range cfg))) n n g of (a, g1) \<Rightarrow>
              (case draw_array (random_uniform np (fst (cfg_value_range cfg))
                      (snd (cfg_value_range cfg))) n n g1 of (b, g2) \<Rightarrow>
                 Inr (a, b, g2)))))"

text \<open>Step 4: \<^verbatim>\<open>activated[:in_rows, :in_cols]\<close> with \<^verbatim>\<open>in_rows, in_cols = 5, 5\<close>.\<close>

definition maxpool_input :: "'a array2d \<Rightarrow> 'a array2d" where
  "maxpool_input activated = slice2d activated 0 5 0 5"

text \<open>
  Step 6: the files. \<^verbatim>\<open>final_output.flatten()[0]\<close> raises \<^verbatim>\<open>IndexError\<close> when the final
  array has no element; the function then returns nothing (the two matrix files are on disk
  by then, which the model does not record).
\<close>

definition write_files ::
  "('a, 'g) numpy \<Rightarrow> 'a array2d \<Rightarrow> 'a array2d \<Rightarrow> 'a array2d \<Rightarrow> py_error + output_files" where
  "write_files np a b final_output =
     (case flatten final_output of
        [] \<Rightarrow> Inl IndexError
      | v # _ \<Rightarrow>
          Inr \<lparr> north_file = map (\<lambda>val. float_to_hex (float_bits np val)) (flatten a),
                west_file = map (\<lambda>val. float_to_hex (float_bits np val)) (flatten b),
                expected_file = [float_to_hex (float_bits np v)] \<rparr>)"

text \<open>
  Step 7: the summary prints \<^verbatim>\<open>A[0,0]\<close>, \<^verbatim>\<open>B[0,0]\<close> and \<^verbatim>\<open>C[0,0]\<close>; indexing an array
  without rows or without columns raises \<^verbatim>\<open>IndexError\<close>.
\<close>

definition item00 :: "'a array2d \<Rightarrow> py_error + 'a" where
  "item00 a =
     (case rows a of
        [] \<Rightarrow> Inl IndexError
      | r # _ \<Rightarrow> (case r of [] \<Rightarrow> Inl IndexError | v # _ \<Rightarrow> Inr v))"

definition print_summary :: "'a array2d \<Rightarrow> 'a array2d \<Rightarrow> 'a array2d \<Rightarrow> py_error + unit" where
  "print_summary a b c =
     (case item00 a of
        Inl e \<Rightarrow> Inl e
      | Inr _ \<Rightarrow>
          (case item00 b of
             Inl e \<Rightarrow> Inl e
           | Inr _ \<Rightarrow> (case item00 c of Inl e \<Rightarrow> Inl e | Inr _ \<Rightarrow> Inr ())))"

text \<open>
  \<open>generate_pipeline_test_vectors\<close>, on the state \<open>g\<close> of the global random generator: it
  returns the dictionary of arrays, the files written and the state of the generator
  afterwards. What is printed is not modelled, the exceptions of printing are.
\<close>

definition generate_pipeline_test_vectors ::
  "('a::{linorder,zero,one}, 'g) numpy \<Rightarrow> 'a pipeline_config \<Rightarrow> 'g
    \<Rightarrow> py_error + ('a pipeline_result \<times> output_files \<times> 'g)" where
  "generate_pipeline_test_vectors np cfg g =
     (case (case cfg_seed cfg of None \<Rightarrow> Inr g | Some s \<Rightarrow> np_random_seed np s) of
        Inl e \<Rightarrow> Inl e
      | Inr g0 \<Rightarrow>
     (case generate_matrices np cfg g0 of
        Inl e \<Rightarrow> Inl e
      | Inr (a, b, g1) \<Rightarrow>
     (case np_matmul np a b of
        Inl e \<Rightarrow> Inl e
      | Inr c \<Rightarrow>
     (let activated = apply_activation np c (cfg_activation_type cfg) in
      case apply_maxpool_2d (maxpool_input activated) (cfg_pool_h cfg) (cfg_pool_w cfg)
             None None (cfg_pool_padding cfg) of
        Inl e \<Rightarrow> Inl e
      | Inr pooled \<Rightarrow>
     (case apply_dropout np pooled (cfg_dropout_p cfg) False None g1 of
        Inl e \<Rightarrow> Inl e
      | Inr (final_output, g2) \<Rightarrow>
     (case write_files np a b final_output of
        Inl e \<Rightarrow> Inl e
      | Inr files \<Rightarrow>
     (case print_summary a b c of
        Inl e \<Rightarrow> Inl e
      | Inr _ \<Rightarrow>
          Inr (\<lparr> res_A = a, res_B = b, res_matmul = c, res_activated = activated,
                 res_pooled = pooled, res_final = final_output \<rparr>,
               files, g2))))))))"

section \<open>Vocabulary for the properties of max pooling\<close>

text \<open>
  The cells of the window of \<open>ph\<close> rows and \<open>pw\<close> columns of an array whose top-left
  corner is at row \<open>r\<close> and column \<open>c\<close>.
\<close>

definition window_cells :: "'a array2d \<Rightarrow> nat \<Rightarrow> nat \<Rightarrow> nat \<Rightarrow> nat \<Rightarrow> 'a set" where
  "window_cells a r c ph pw = (\<lambda>(da, db). cell a (r + da) (c + db)) ` ({..<ph} \<times> {..<pw})"

text \<open>
  The cell at row \<open>r\<close> and column \<open>c\<close> of an array surrounded by \<open>p\<close> rows and columns of
  zeros on its four sides: the cell of the array inside, zero in the border.
\<close>

definition padded_cell :: "'a::zero array2d \<Rightarrow> nat \<Rightarrow> nat \<Rightarrow> nat \<Rightarrow> 'a" where
  "padded_cell a p r c =
     (if p \<le> r \<and> r < p + nrows a \<and> p \<le> c \<and> c < p + ncols a then cell a (r - p) (c - p) else 0)"

section \<open>IEEE-754 arithmetic\<close>

text \<open>
  The values of a binary floating-point format: NaN, the two infinities, and the finite
  numbers, by their value. Signed zeros are not told apart: the zero is the positive one,
  which is what \<^verbatim>\<open>1 - 1.0\<close> gives.
\<close>

datatype ieee = NaN | PInf | NInf | Fin real

text \<open>
  The operations follow IEEE 754 as numpy applies it, where an invalid operation or a
  division by zero gives a NaN or an infinity and a warning, not an exception. The result
  of an operation on finite numbers is rounded to the format by \<open>rnd\<close>, which may overflow
  to an infinity; a difference or a product that is zero is exact.
\<close>

definition ieee_of_int :: "(real \<Rightarrow> ieee) \<Rightarrow> int \<Rightarrow> ieee" where
  "ieee_of_int rnd i = (if \<bar>i\<bar> \<le> 2 ^ 24 then Fin (of_int i) else rnd (of_int i))"

fun ieee_sub :: "(real \<Rightarrow> ieee) \<Rightarrow> ieee \<Rightarrow> ieee \<Rightarrow> ieee" where
  "ieee_sub rnd NaN b = NaN"
| "ieee_sub rnd a NaN = NaN"
| "ieee_sub rnd PInf PInf = NaN"
| "ieee_sub rnd NInf NInf = NaN"
| "ieee_sub rnd PInf b = PInf"
| "ieee_sub rnd NInf b = NInf"
| "ieee_sub rnd (Fin a) PInf = NInf"
| "ieee_sub rnd (Fin a) NInf = PInf"
| "ieee_sub rnd (Fin a) (Fin b) = (if a = b then Fin 0 else rnd (a - b))"

fun ieee_mul :: "(real \<Rightarrow> ieee) \<Rightarrow> ieee \<Rightarrow> ieee \<Rightarrow> ieee" where
  "ieee_mul rnd NaN b = NaN"
| "ieee_mul rnd a NaN = NaN"
| "ieee_mul rnd PInf PInf = PInf"
| "ieee_mul rnd PInf NInf = NInf"
| "ieee_mul rnd NInf PInf = NInf"
| "ieee_mul rnd NInf NInf = PInf"
| "ieee_mul rnd PInf (Fin b) = (if b = 0 then NaN else if b < 0 then NInf else PInf)"
| "ieee_mul rnd NInf (Fin b) = (if b = 0 then NaN else if b < 0 then PInf else NInf)"
| "ieee_mul rnd (Fin a) PInf = (if a = 0 then NaN else if a < 0 then NInf else PInf)"
| "ieee_mul rnd (Fin a) NInf = (if a = 0 then NaN else if a < 0 then PInf else NInf)"
| "ieee_mul rnd (Fin a) (Fin b) = (if a = 0 \<or> b = 0 then Fin 0 else rnd (a * b))"

fun ieee_div :: "(real \<Rightarrow> ieee) \<Rightarrow> ieee \<Rightarrow> ieee \<Rightarrow> ieee" where
  "ieee_div rnd NaN b = NaN"
| "ieee_div rnd a NaN = NaN"
| "ieee_div rnd PInf PInf = NaN"
| "ieee_div rnd PInf NInf = NaN"
| "ieee_div rnd NInf PInf = NaN"
| "ieee_div rnd NInf NInf = NaN"
| "ieee_div rnd PInf (Fin b) = (if b < 0 then NInf else PInf)"
| "ieee_div rnd NInf (Fin b) = (if b < 0 then PInf else NInf)"
| "ieee_div rnd (Fin a) PInf = Fin 0"
| "ieee_div rnd (Fin a) NInf = Fin 0"
| "ieee_div rnd (Fin a) (Fin b) =
     (if b = 0 then (if a = 0 then NaN else if a < 0 then NInf else PInf) else rnd (a / b))"

text \<open>
  \<^verbatim>\<open>np.random.binomial(1, q)\<close> raises \<^verbatim>\<open>ValueError\<close> unless \<open>0 \<le> q \<le> 1\<close>, and a sample with
  \<open>q = 0\<close> is 0, whatever the generator.
\<close>

definition ieee_binomial_valid :: "ieee \<Rightarrow> bool" where
  "ieee_binomial_valid q = (case q of Fin a \<Rightarrow> 0 \<le> a \<and> a \<le> 1 | _ \<Rightarrow> False)"

definition ieee_binomial :: "(ieee \<Rightarrow> 'g \<Rightarrow> nat \<times> 'g) \<Rightarrow> ieee \<Rightarrow> 'g \<Rightarrow> nat \<times> 'g" where
  "ieee_binomial draw q g = (case draw q g of (m, g') \<Rightarrow> (if q = Fin 0 then 0 else m, g'))"

text \<open>
  A numeric library on these values: its arithmetic is the IEEE arithmetic above, with the
  rounding \<open>rnd\<close>; the generator, the dot product and the activation functions are those of
  any library \<open>np\<close>.
\<close>

definition ieee_numpy :: "(real \<Rightarrow> ieee) \<Rightarrow> (ieee, 'g) numpy \<Rightarrow> (ieee, 'g) numpy" where
  "ieee_numpy rnd np =
     np \<lparr> binomial_valid := ieee_binomial_valid,
          random_binomial := ieee_binomial (random_binomial np),
          float_of_int := ieee_of_int rnd,
          float_sub := ieee_sub rnd,
          float_mul := ieee_mul rnd,
          float_div := ieee_div rnd \<rparr>"

section \<open>A small instance of the library\<close>

text \<open>
  To run the model on concrete inputs: an instance of the numeric library on integers, with
  a small linear congruential generator as random state, and a configuration of the pipeline.
\<close>

definition example_numpy :: "(int, nat) numpy" where
  "example_numpy =
     \<lparr> random_seed = nat,
       random_uniform = (\<lambda>lo hi g. (lo + int g mod (hi - lo + 1), (g * 5 + 3) mod 64)),
       random_randint = (\<lambda>lo hi g. (lo + int g mod (hi - lo), (g * 5 + 3) mod 64)),
       binomial_valid = (\<lambda>q. 0 \<le> q \<and> q \<le> 1),
       random_binomial = (\<lambda>q g. (g mod 2, (g * 5 + 3) mod 64)),
       float_of_int = (\<lambda>i. i),
       float_dot = (\<lambda>r c. sum_list (map2 (*) r c)),
       float_sigmoid = (\<lambda>v. v),
       float_tanh = (\<lambda>v. v),
       float_sub = (\<lambda>a b. a - b),
       float_mul = (\<lambda>a b. a * b),
       float_div = (\<lambda>a b. a div b),
       float_bits = (\<lambda>v. word_of_int v) \<rparr>"

definition example_config :: "int pipeline_config" where
  "example_config =
     \<lparr> cfg_n = 3, cfg_activation_type = ''relu'', cfg_pool_h = 2, cfg_pool_w = 2,
       cfg_pool_padding = 1, cfg_dropout_p = 0, cfg_seed = Some 42,
       cfg_matrix_type = ''small_int'', cfg_value_range = (- 1, 1) \<rparr>"

text \<open>The generator of the same instance, for a library on IEEE values.\<close>

definition example_ieee_numpy :: "(ieee, nat) numpy" where
  "example_ieee_numpy =
     \<lparr> random_seed = nat,
       random_uniform = (\<lambda>lo hi g. (lo, (g * 5 + 3) mod 64)),
       random_randint = (\<lambda>lo hi g. (lo + int g mod (hi - lo), (g * 5 + 3) mod 64)),
       binomial_valid = (\<lambda>q. True),
       random_binomial = (\<lambda>q g. (g mod 2, (g * 5 + 3) mod 64)),
       float_of_int = (\<lambda>i. Fin (of_int i)),
       float_dot = (\<lambda>r c. NaN),
       float_sigmoid = (\<lambda>v. v),
       float_tanh = (\<lambda>v. v),
       float_sub = (\<lambda>a b. a),
       float_mul = (\<lambda>a b. a),
       float_div = (\<lambda>a b. a),
       float_bits = (\<lambda>v. 0) \<rparr>"

section \<open>Properties of the float codec\<close>

lemma hex_digit_cases:
  "(d::nat) < 16 \<Longrightarrow> d \<in> {0,1,2,3,4,5,6,7,8,9,10,11,12,13,14,15}"
  by (simp only: insert_iff empty_iff) arith

lemma digit_value_hex_digit: "d < 16 \<Longrightarrow> digit_value (hex_digit d) = Some d"
  by (drule hex_digit_cases) (auto simp: digit_value_def hex_digit_def)

lemma is_space_hex_digit: "d < 16 \<Longrightarrow> \<not> is_space (hex_digit d)"
  by (drule hex_digit_cases) (auto simp: is_space_def hex_digit_def)

lemma format_02x_byte:
  assumes "b < 256"
  shows "format_02x b = [hex_digit (b div 16), hex_digit (b mod 16)]"
proof (cases "b < 16")
  case True
  then show ?thesis by (simp add: format_02x_def hex_digit_def)
next
  case False
  with assms have "b div 16 < 16" by simp
  with False show ?thesis by (simp add: format_02x_def)
qed

lemma bytes_fromhex_format_02x:
  assumes "b < 256"
  shows "bytes_fromhex (format_02x b @ cs) =
    (case bytes_fromhex cs of Inl e \<Rightarrow> Inl e | Inr bs \<Rightarrow> Inr (of_nat b # bs))"
proof -
  from assms have hi: "b div 16 < 16" by simp
  have lo: "b mod 16 < 16" by simp
  have e: "b div 16 * 16 + b mod 16 = b"
    by (rule div_mult_mod_eq)
  have "bytes_fromhex (format_02x b @ cs) =
    (case bytes_fromhex cs of Inl e \<Rightarrow> Inl e
     | Inr bs \<Rightarrow> Inr (of_nat (b div 16 * 16 + b mod 16) # bs))"
    using digit_value_hex_digit [OF hi] digit_value_hex_digit [OF lo] is_space_hex_digit [OF hi]
    by (simp add: format_02x_byte [OF assms])
  then show ?thesis
    unfolding e .
qed

lemma unat_byte_less: "unat (b :: byte) < 256"
  using unsigned_less [of b] by simp

lemma bytes_fromhex_encode:
  "bytes_fromhex (concat (map (\<lambda>b. format_02x (unat b)) bs)) = Inr bs"
proof (induction bs)
  case Nil
  show ?case by simp
next
  case (Cons b bs)
  then show ?case
    by (simp add: bytes_fromhex_format_02x [OF unat_byte_less])
qed

lemma ucast_drop_bit: "(ucast (drop_bit k (f :: float32)) :: byte) = of_nat (unat f div 2 ^ k)"
proof -
  have "(ucast (drop_bit k f) :: byte) = of_nat (unat (drop_bit k f))"
    by simp
  also have "unat (drop_bit k f) = unat f div 2 ^ k"
    by (subst unat_drop_bit_eq) (simp add: drop_bit_eq_div)
  finally show ?thesis .
qed

lemma float_bytes_nat:
  "float_bytes f = (let n = unat f in
     [of_nat (n div 2 ^ 24), of_nat (n div 2 ^ 16), of_nat (n div 2 ^ 8), of_nat n])"
  using ucast_drop_bit [of 0 f]
  by (simp add: float_bytes_def Let_def ucast_drop_bit)

lemma bytes_join_split:
  assumes "n < 2 ^ 32"
  shows "((n div 2 ^ 24 mod 256 * 256 + n div 2 ^ 16 mod 256) * 256 + n div 2 ^ 8 mod 256) * 256
      + n mod 256 = (n::nat)"
proof -
  define a where "a = n div 256"
  define b where "b = a div 256"
  define c where "c = b div 256"
  have d8: "n div 2 ^ 8 = a" by (simp add: a_def)
  have d16: "n div 2 ^ 16 = b" by (simp add: a_def b_def div_mult2_eq)
  have d24: "n div 2 ^ 24 = c" by (simp add: a_def b_def c_def div_mult2_eq)
  from assms have "c < 256" unfolding d24 [symmetric] by (simp add: less_mult_imp_div_less)
  then have c: "c mod 256 = c" by simp
  have "n = a * 256 + n mod 256" by (simp add: a_def)
  moreover have "a = b * 256 + a mod 256" by (simp add: b_def)
  moreover have "b = c * 256 + b mod 256" by (simp add: c_def)
  ultimately show ?thesis
    unfolding d8 d16 d24 c by simp
qed

lemma bytes_float_bytes: "bytes_float (float_bytes f) = f"
proof -
  define n where "n = unat f"
  have n: "n < 2 ^ 32" unfolding n_def using unsigned_less [of f] by simp
  have b: "unat (of_nat k :: byte) = k mod 256" for k
    by (simp add: unat_of_nat)
  have "foldl (\<lambda>acc b. acc * 256 + unat b) 0 (float_bytes f) =
    ((n div 2 ^ 24 mod 256 * 256 + n div 2 ^ 16 mod 256) * 256 + n div 2 ^ 8 mod 256) * 256
      + n mod 256"
    by (simp add: float_bytes_nat Let_def b n_def [symmetric])
  also have "\<dots> = n" by (rule bytes_join_split [OF n])
  finally show ?thesis
    by (simp add: bytes_float_def n_def)
qed

subsection \<open>Quieting\<close>

lemma is_nan_set_bit: "is_nan f \<Longrightarrow> is_nan (set_bit 22 f)"
proof -
  assume nan: "is_nan f"
  have "drop_bit 23 (set_bit 22 f) = drop_bit 23 f"
    by (rule bit_eqI) (auto simp: bit_simps)
  moreover have "bit (take_bit 23 (set_bit 22 f)) 22"
    by (simp add: bit_simps)
  then have "take_bit 23 (set_bit 22 f) \<noteq> 0"
    by auto
  ultimately show ?thesis
    using nan by (simp add: is_nan_def)
qed

lemma quiet_nan_idem: "quiet_nan (quiet_nan f) = quiet_nan f"
  by (simp add: quiet_nan_def is_nan_set_bit set_bit_eq_idem_iff bit_simps)

lemma quiet_nan_id: "\<not> is_signalling_nan f \<Longrightarrow> quiet_nan f = f"
  by (auto simp: quiet_nan_def is_signalling_nan_def set_bit_eq_idem_iff)

lemma quiet_nan_signalling: "is_signalling_nan f \<Longrightarrow> quiet_nan f \<noteq> f"
  by (auto simp: quiet_nan_def is_signalling_nan_def set_bit_eq_idem_iff)

lemma struct_unpack_pack: "struct_unpack_f (struct_pack_f f) = Inr (quiet_nan f)"
proof -
  have "length (struct_pack_f f) = 4"
    by (simp add: struct_pack_f_def float_bytes_def)
  then show ?thesis
    by (simp add: struct_unpack_f_def) (simp add: struct_pack_f_def bytes_float_bytes quiet_nan_idem)
qed

subsection \<open>Encoding\<close>

lemma is_lower_hex_digit: "d < 16 \<Longrightarrow> is_lower_hex (hex_digit d)"
  by (drule hex_digit_cases) (auto simp: is_lower_hex_def hex_digit_def)

lemma format_02x_shape:
  "length (format_02x (unat (b :: byte))) = 2 \<and> list_all is_lower_hex (format_02x (unat b))"
proof -
  have "unat b div 16 < 16"
    using unat_byte_less [of b] by simp
  then show ?thesis
    by (simp add: format_02x_byte [OF unat_byte_less] is_lower_hex_digit)
qed

lemma float_to_hex_shape:
  "length (float_to_hex x) = 8 \<and> list_all is_lower_hex (float_to_hex x)"
  by (simp add: float_to_hex_def struct_pack_f_def float_bytes_def format_02x_shape)

lemma codec_roundtrip: "hex_to_float (float_to_hex x) = Inr (quiet_nan x)"
  by (simp add: hex_to_float_def float_to_hex_def bytes_fromhex_encode struct_unpack_pack)

subsection \<open>Decoding\<close>

lemma digit_value_less: "digit_value c = Some d \<Longrightarrow> d < 16"
  by (auto simp: digit_value_def Let_def split: if_splits)

lemma is_space_not_hex: "is_space c \<Longrightarrow> digit_value c = None"
  by (auto simp: is_space_def digit_value_def Let_def)

lemma bytes_fromhex_Inl: "bytes_fromhex s = Inl e \<Longrightarrow> e = ValueError"
  by (induction s rule: bytes_fromhex.induct)
    (auto split: if_splits option.splits list.splits sum.splits)

lemma bytes_fromhex_Inr:
  "bytes_fromhex s = Inr bs \<Longrightarrow>
     list_all (\<lambda>c. is_hex c \<or> is_space c) s \<and> length (filter is_hex s) = 2 * length bs"
  by (induction s arbitrary: bs rule: bytes_fromhex.induct)
    (auto simp: is_hex_def is_space_not_hex split: if_splits option.splits list.splits sum.splits)

lemma is_hex_not_space: "is_hex c \<Longrightarrow> \<not> is_space c"
  using is_space_not_hex [of c] by (auto simp: is_hex_def)

text \<open>A run of an even number of hexadecimal digits is read as that many pairs.\<close>

lemma bytes_fromhex_run:
  "list_all is_hex w \<Longrightarrow> even (length w) \<Longrightarrow>
     \<exists>bs0. 2 * length bs0 = length w \<and>
       (\<forall>a. foldl (\<lambda>acc b. acc * 256 + unat b) a bs0 =
          foldl (\<lambda>acc c. acc * 16 + (case digit_value c of Some d \<Rightarrow> d | None \<Rightarrow> 0)) a w) \<and>
       (\<forall>rest. bytes_fromhex (w @ rest) =
          (case bytes_fromhex rest of Inl e \<Rightarrow> Inl e | Inr bs \<Rightarrow> Inr (bs0 @ bs)))"
proof (induction w rule: induct_list012)
  case 1
  have "\<forall>rest. bytes_fromhex ([] @ rest) =
      (case bytes_fromhex rest of Inl e \<Rightarrow> Inl e | Inr bs \<Rightarrow> Inr ([] @ bs))"
    by (simp split: sum.splits)
  then show ?case
    by (intro exI [of _ "[]"]) simp
next
  case (2 c)
  then show ?case by simp
next
  case (3 c d ds)
  let ?g = "\<lambda>acc c. acc * 16 + (case digit_value c of Some d \<Rightarrow> d | None \<Rightarrow> 0)"
  from 3(3) have "is_hex c" and "is_hex d" and rest: "list_all is_hex ds"
    by simp_all
  then obtain hi lo where hi: "digit_value c = Some hi" and lo: "digit_value d = Some lo"
    by (auto simp: is_hex_def)
  from 3(4) have "even (length ds)" by simp
  with 3(1) rest obtain bs1 where bs1: "2 * length bs1 = length ds"
    "\<And>a. foldl (\<lambda>acc b. acc * 256 + unat b) a bs1 = foldl ?g a ds"
    "\<And>rest. bytes_fromhex (ds @ rest) =
          (case bytes_fromhex rest of Inl e \<Rightarrow> Inl e | Inr bs \<Rightarrow> Inr (bs1 @ bs))"
    by blast
  have nsp: "\<not> is_space c"
    using hi is_space_not_hex [of c] by auto
  define w :: byte where "w = of_nat (hi * 16 + lo)"
  have "hi * 16 + lo < 256"
    using digit_value_less [OF hi] digit_value_less [OF lo] by simp
  then have u: "unat w = hi * 16 + lo"
    unfolding w_def by (simp only: unat_of_nat) simp
  have "2 * length (w # bs1) = length (c # d # ds)"
    using bs1(1) by simp
  moreover have "foldl (\<lambda>acc b. acc * 256 + unat b) a (w # bs1) = foldl ?g a (c # d # ds)" for a
  proof -
    have eq: "(a * 16 + hi) * 16 + lo = a * 256 + (hi * 16 + lo)"
      by simp
    have L: "foldl (\<lambda>acc b. acc * 256 + unat b) a (w # bs1) = foldl ?g (a * 256 + (hi * 16 + lo)) ds"
      by (simp add: u bs1(2))
    have R: "foldl ?g a (c # d # ds) = foldl ?g ((a * 16 + hi) * 16 + lo) ds"
      by (simp only: foldl.simps hi lo option.case)
    show ?thesis
      by (simp only: L R eq)
  qed
  moreover have "bytes_fromhex ((c # d # ds) @ rest) =
      (case bytes_fromhex rest of Inl e \<Rightarrow> Inl e | Inr bs \<Rightarrow> Inr ((w # bs1) @ bs))" for rest
    using hi lo nsp by (simp add: bs1(3) w_def split: sum.splits)
  ultimately show ?case by blast
qed

lemma bytes_fromhex_digits:
  assumes "list_all is_hex s" and "even (length s)"
  shows "\<exists>bs. bytes_fromhex s = Inr bs \<and> 2 * length bs = length s \<and>
       (\<forall>a. foldl (\<lambda>acc b. acc * 256 + unat b) a bs =
          foldl (\<lambda>acc c. acc * 16 + (case digit_value c of Some d \<Rightarrow> d | None \<Rightarrow> 0)) a s)"
proof -
  from bytes_fromhex_run [OF assms] obtain bs0 where bs0: "2 * length bs0 = length s"
    "\<forall>a. foldl (\<lambda>acc b. acc * 256 + unat b) a bs0 =
          foldl (\<lambda>acc c. acc * 16 + (case digit_value c of Some d \<Rightarrow> d | None \<Rightarrow> 0)) a s"
    "\<And>rest. bytes_fromhex (s @ rest) =
          (case bytes_fromhex rest of Inl e \<Rightarrow> Inl e | Inr bs \<Rightarrow> Inr (bs0 @ bs))"
    by blast
  from bs0(3) [of "[]"] have "bytes_fromhex s = Inr bs0"
    by simp
  with bs0(1,2) show ?thesis
    by blast
qed

text \<open>
  A run that holds a character that is not a hexadecimal digit, or has an odd length, makes
  \<open>bytes_fromhex\<close> fail.
\<close>

lemma bytes_fromhex_bad_run:
  "list_all (\<lambda>c. \<not> is_space c) w \<Longrightarrow> rest = [] \<or> is_space (hd rest) \<Longrightarrow>
     \<not> (list_all is_hex w \<and> even (length w)) \<Longrightarrow>
     bytes_fromhex (w @ rest) = Inl ValueError"
proof (induction w rule: induct_list012)
  case 1
  then show ?case by simp
next
  case (2 c)
  from 2(1) have nsp: "\<not> is_space c" by simp
  show ?case
  proof (cases rest)
    case Nil
    with nsp show ?thesis by (simp split: option.splits)
  next
    case (Cons r rs)
    with 2(2) have "is_space r" by simp
    then have "digit_value r = None" by (rule is_space_not_hex)
    with nsp Cons show ?thesis by (simp split: option.splits)
  qed
next
  case (3 c d ds)
  from 3(3) have nsp: "\<not> is_space c" and nsd: "\<not> is_space d"
    and rest: "list_all (\<lambda>c. \<not> is_space c) ds"
    by simp_all
  show ?case
  proof (cases "is_hex c \<and> is_hex d")
    case False
    with nsp show ?thesis
      by (auto simp: is_hex_def split: option.splits)
  next
    case True
    with 3(5) have "\<not> (list_all is_hex ds \<and> even (length ds))"
      by simp
    with 3(1) rest 3(4) have "bytes_fromhex (ds @ rest) = Inl ValueError"
      by simp
    with nsp show ?thesis
      by (simp split: option.splits)
  qed
qed

lemma nonspace_runs_Cons:
  fixes c :: char and cs :: string
  assumes "\<not> is_space c"
  defines "w \<equiv> c # takeWhile (\<lambda>x. \<not> is_space x) cs"
    and "rest \<equiv> dropWhile (\<lambda>x. \<not> is_space x) cs"
  shows "c # cs = w @ rest" and "nonspace_runs (c # cs) = w # nonspace_runs rest"
    and "list_all (\<lambda>c. \<not> is_space c) w" and "rest = [] \<or> is_space (hd rest)"
proof -
  show "c # cs = w @ rest"
    by (simp add: w_def rest_def)
  show "nonspace_runs (c # cs) = w # nonspace_runs rest"
    using assms(1) by (simp add: w_def rest_def)
  show "list_all (\<lambda>c. \<not> is_space c) w"
    using assms(1) by (auto simp: w_def list_all_iff dest: set_takeWhileD)
  show "rest = [] \<or> is_space (hd rest)"
    using hd_dropWhile [of "\<lambda>x. \<not> is_space x" cs] by (auto simp: rest_def)
qed

text \<open>\<open>bytes_fromhex\<close> succeeds exactly on the well-paired strings, and reads their digits.\<close>

lemma bytes_fromhex_well_paired:
  "(well_paired s \<longrightarrow>
      (\<exists>bs. bytes_fromhex s = Inr bs \<and> 2 * length bs = length (concat (nonspace_runs s)) \<and>
         (\<forall>a. foldl (\<lambda>acc b. acc * 256 + unat b) a bs =
            foldl (\<lambda>acc c. acc * 16 + (case digit_value c of Some d \<Rightarrow> d | None \<Rightarrow> 0)) a
              (concat (nonspace_runs s)))))
   \<and> (\<not> well_paired s \<longrightarrow> bytes_fromhex s = Inl ValueError)"
proof (induction s rule: nonspace_runs.induct)
  case 1
  show ?case by (simp add: well_paired_def)
next
  case (2 c cs)
  let ?f = "\<lambda>acc b. acc * 256 + unat (b :: byte)"
  let ?g = "\<lambda>acc c. acc * 16 + (case digit_value c of Some d \<Rightarrow> d | None \<Rightarrow> 0)"
  show ?case
  proof (cases "is_space c")
    case True
    with 2(1) show ?thesis
      by (simp add: well_paired_def)
  next
    case False
    define w where "w = c # takeWhile (\<lambda>x. \<not> is_space x) cs"
    define rest where "rest = dropWhile (\<lambda>x. \<not> is_space x) cs"
    note r = nonspace_runs_Cons [OF False, of cs, folded w_def rest_def]
    from 2(2) [OF False] have IH:
      "well_paired rest \<longrightarrow>
        (\<exists>bs. bytes_fromhex rest = Inr bs \<and> 2 * length bs = length (concat (nonspace_runs rest)) \<and>
           (\<forall>a. foldl ?f a bs = foldl ?g a (concat (nonspace_runs rest))))"
      "\<not> well_paired rest \<longrightarrow> bytes_fromhex rest = Inl ValueError"
      by (simp_all add: rest_def)
    have wp: "well_paired (c # cs) \<longleftrightarrow> (list_all is_hex w \<and> even (length w)) \<and> well_paired rest"
      unfolding well_paired_def r(2) by simp
    show ?thesis
    proof (cases "list_all is_hex w \<and> even (length w)")
      case bad: False
      with r(3,4) have "bytes_fromhex (w @ rest) = Inl ValueError"
        by (intro bytes_fromhex_bad_run)
      with bad wp show ?thesis
        by (auto simp: r(1))
    next
      case good: True
      with bytes_fromhex_run [of w] obtain bs0 where bs0: "2 * length bs0 = length w"
        "\<And>a. foldl ?f a bs0 = foldl ?g a w"
        "\<And>rest. bytes_fromhex (w @ rest) =
          (case bytes_fromhex rest of Inl e \<Rightarrow> Inl e | Inr bs \<Rightarrow> Inr (bs0 @ bs))"
        by blast
      show ?thesis
      proof (cases "well_paired rest")
        case False
        with IH(2) have "bytes_fromhex (w @ rest) = Inl ValueError"
          by (simp add: bs0(3))
        with False wp show ?thesis
          by (auto simp: r(1))
      next
        case True
        with IH(1) obtain bs where bs: "bytes_fromhex rest = Inr bs"
          "2 * length bs = length (concat (nonspace_runs rest))"
          "\<And>a. foldl ?f a bs = foldl ?g a (concat (nonspace_runs rest))"
          by blast
        have "bytes_fromhex (c # cs) = Inr (bs0 @ bs)"
          by (simp add: r(1) bs0(3) bs(1))
        moreover have "2 * length (bs0 @ bs) = length (concat (nonspace_runs (c # cs)))"
          unfolding r(2) using bs0(1) bs(2) by simp
        moreover have "foldl ?f a (bs0 @ bs) = foldl ?g a (concat (nonspace_runs (c # cs)))" for a
          unfolding r(2) by (simp add: bs0(2) bs(3))
        ultimately show ?thesis
          using True good wp by blast
      qed
    qed
  qed
qed

lemma hex_to_float_well_paired:
  assumes "well_paired s"
  shows "hex_to_float s =
    (if length (concat (nonspace_runs s)) = 8
     then Inr (quiet_nan (of_nat (hex_denotation (concat (nonspace_runs s)))))
     else Inl StructError)"
proof -
  from assms bytes_fromhex_well_paired [of s] obtain bs where bs: "bytes_fromhex s = Inr bs"
    "2 * length bs = length (concat (nonspace_runs s))"
    "\<forall>a. foldl (\<lambda>acc b. acc * 256 + unat b) a bs =
       foldl (\<lambda>acc c. acc * 16 + (case digit_value c of Some d \<Rightarrow> d | None \<Rightarrow> 0)) a
         (concat (nonspace_runs s))"
    by blast
  from bs(2) have "length bs = 4 \<longleftrightarrow> length (concat (nonspace_runs s)) = 8"
    by auto
  then show ?thesis
    using bs(1) bs(3)
    by (simp add: hex_to_float_def struct_unpack_f_def bytes_float_def hex_denotation_def)
qed

lemma hex_to_float_not_well_paired: "\<not> well_paired s \<Longrightarrow> hex_to_float s = Inl ValueError"
  using bytes_fromhex_well_paired [of s] by (simp add: hex_to_float_def)

lemma nonspace_runs_hex:
  assumes "list_all is_hex s"
  shows "concat (nonspace_runs s) = s \<and> (well_paired s \<longleftrightarrow> even (length s))"
proof (cases s)
  case Nil
  then show ?thesis by (simp add: well_paired_def)
next
  case (Cons c cs)
  with assms have c: "\<not> is_space c" and cs: "\<forall>x\<in>set cs. \<not> is_space x"
    by (auto simp: list_all_iff dest: is_hex_not_space)
  from cs have tw: "takeWhile (\<lambda>x. \<not> is_space x) cs = cs"
    and dw: "dropWhile (\<lambda>x. \<not> is_space x) cs = []"
    by simp_all
  have "nonspace_runs (c # cs) = [c # cs]"
    by (simp add: c tw dw)
  with assms Cons show ?thesis
    by (simp add: well_paired_def)
qed

lemma hex_to_float_digits:
  assumes "length s = 8" and "list_all is_hex s"
  shows "hex_to_float s = Inr (quiet_nan (of_nat (hex_denotation s)))"
proof -
  from nonspace_runs_hex [OF assms(2)] assms(1)
  have "concat (nonspace_runs s) = s" and "well_paired s"
    by simp_all
  with hex_to_float_well_paired [of s] assms(1) show ?thesis
    by simp
qed

lemma is_lower_hex_is_hex: "is_lower_hex c \<Longrightarrow> is_hex c"
  by (auto simp: is_lower_hex_def is_hex_def digit_value_def)

lemma hex_denotation_step:
  "foldl (\<lambda>acc c. acc * 16 + (case digit_value c of Some d \<Rightarrow> d | None \<Rightarrow> 0)) a s
     < (a + 1) * 16 ^ length s"
proof (induction s arbitrary: a)
  case Nil
  show ?case by simp
next
  case (Cons c s)
  let ?d = "case digit_value c of Some d \<Rightarrow> d | None \<Rightarrow> 0"
  have "?d < 16"
    by (auto split: option.splits dest: digit_value_less)
  then have "a * 16 + ?d + 1 \<le> (a + 1) * 16"
    by simp
  then have B: "(a * 16 + ?d + 1) * 16 ^ length s \<le> (a + 1) * 16 * 16 ^ length s"
    by (rule mult_le_mono1)
  have C: "(a + 1) * 16 * 16 ^ length s = (a + 1) * 16 ^ length (c # s)"
    by (simp add: algebra_simps)
  from Cons.IH [of "a * 16 + ?d"] B
  have "foldl (\<lambda>acc c. acc * 16 + (case digit_value c of Some d \<Rightarrow> d | None \<Rightarrow> 0))
      (a * 16 + ?d) s < (a + 1) * 16 * 16 ^ length s"
    by (rule less_le_trans)
  then show ?case
    by (simp only: C foldl.simps)
qed

lemma hex_denotation_bound: "length s = 8 \<Longrightarrow> hex_denotation s < 2 ^ 32"
  using hex_denotation_step [of 0 s] by (simp add: hex_denotation_def)

subsection \<open>The claims on the codec\<close>

lemma float_to_hex_denotation: "hex_denotation (float_to_hex x) = unat (quiet_nan x)"
proof -
  have "list_all is_hex (float_to_hex x)"
    using float_to_hex_shape [of x] by (auto simp: list_all_iff dest: is_lower_hex_is_hex)
  then have "hex_to_float (float_to_hex x) =
      Inr (quiet_nan (of_nat (hex_denotation (float_to_hex x))))"
    using float_to_hex_shape [of x] by (simp add: hex_to_float_digits)
  moreover have "(of_nat (hex_denotation (float_to_hex x)) :: float32) =
      bytes_float (struct_pack_f x)"
  proof -
    from \<open>list_all is_hex (float_to_hex x)\<close> float_to_hex_shape [of x]
    have "\<exists>bs. bytes_fromhex (float_to_hex x) = Inr bs \<and> 2 * length bs = length (float_to_hex x) \<and>
       (\<forall>a. foldl (\<lambda>acc b. acc * 256 + unat b) a bs =
          foldl (\<lambda>acc c. acc * 16 + (case digit_value c of Some d \<Rightarrow> d | None \<Rightarrow> 0)) a
            (float_to_hex x))"
      by (intro bytes_fromhex_digits) simp_all
    then obtain bs where bs: "bytes_fromhex (float_to_hex x) = Inr bs"
      "\<forall>a. foldl (\<lambda>acc b. acc * 256 + unat b) a bs =
          foldl (\<lambda>acc c. acc * 16 + (case digit_value c of Some d \<Rightarrow> d | None \<Rightarrow> 0)) a
            (float_to_hex x)"
      by blast
    from bs(1) have "bs = struct_pack_f x"
      by (simp add: float_to_hex_def bytes_fromhex_encode)
    with bs(2) show ?thesis
      by (simp add: bytes_float_def hex_denotation_def)
  qed
  then have w: "(of_nat (hex_denotation (float_to_hex x)) :: float32) = quiet_nan x"
    by (simp add: struct_pack_f_def bytes_float_bytes)
  have lt: "hex_denotation (float_to_hex x) < 2 ^ 32"
    by (rule hex_denotation_bound) (simp add: float_to_hex_shape)
  have "unat (of_nat k :: float32) = k mod 2 ^ 32" for k
    by (simp add: unat_of_nat)
  from this [of "hex_denotation (float_to_hex x)"] lt
  show ?thesis
    by (simp only: w mod_less)
qed

lemma float_to_hex_zeros:
  "float_to_hex 0 = ''00000000'' \<and> float_to_hex 0x80000000 = ''80000000''"
  by (simp add: float_to_hex_def struct_pack_f_def quiet_nan_def is_nan_def float_bytes_nat
      format_02x_byte hex_digit_def)

text \<open>
  Claim C1, amended (round-trip law of the float codec). For every 32-bit float \<open>x\<close> that is
  not a signalling NaN, so for \<open>0.0\<close>, \<open>-0.0\<close>, the infinities, the subnormal numbers and
  every quiet NaN pattern, \<open>hex_to_float (float_to_hex x)\<close> succeeds and returns \<open>x\<close> bit for
  bit. A signalling NaN comes back as the quiet NaN of the same sign and payload, because
  \<^verbatim>\<open>struct\<close> handles a float as a C double. \<open>float_to_hex x\<close> is exactly 8 lowercase
  hexadecimal characters, the big-endian bit pattern of \<open>x\<close> (quieted, when \<open>x\<close> is a
  signalling NaN); \<open>0.0\<close> and \<open>-0.0\<close> have distinct encodings.
\<close>

theorem float_codec_roundtrip:
  "(\<not> is_signalling_nan x \<longrightarrow> hex_to_float (float_to_hex x) = Inr x) \<and>
   hex_to_float (float_to_hex x) = Inr (quiet_nan x) \<and>
   length (float_to_hex x) = 8 \<and> list_all is_lower_hex (float_to_hex x) \<and>
   hex_denotation (float_to_hex x) = unat (quiet_nan x) \<and>
   float_to_hex 0 = ''00000000'' \<and> float_to_hex 0x80000000 = ''80000000''"
proof -
  have "hex_to_float (float_to_hex x) = Inr x" if "\<not> is_signalling_nan x"
    using that by (simp add: codec_roundtrip quiet_nan_id)
  with codec_roundtrip [of x] float_to_hex_shape [of x] float_to_hex_denotation [of x]
    float_to_hex_zeros
  show ?thesis
    by blast
qed

theorem float_codec_roundtrip_witness:
  "\<not> is_signalling_nan 0x7FC00000 \<and> hex_to_float (float_to_hex 0x7FC00000) = Inr 0x7FC00000 \<and>
   \<not> is_signalling_nan 0x7F800000 \<and> hex_to_float (float_to_hex 0x7F800000) = Inr 0x7F800000 \<and>
   \<not> is_signalling_nan 0x80000000 \<and> hex_to_float (float_to_hex 0x80000000) = Inr 0x80000000 \<and>
   \<not> is_signalling_nan 0 \<and> hex_to_float (float_to_hex 0) = Inr 0"
proof -
  have n: "\<not> is_signalling_nan 0x7FC00000" "\<not> is_signalling_nan 0x7F800000"
    "\<not> is_signalling_nan 0x80000000" "\<not> is_signalling_nan 0"
    by (simp_all add: is_signalling_nan_def is_nan_def)
  note t = float_codec_roundtrip [THEN conjunct1, THEN mp]
  from n(1) have 1: "hex_to_float (float_to_hex 0x7FC00000) = Inr 0x7FC00000" by (rule t)
  from n(2) have 2: "hex_to_float (float_to_hex 0x7F800000) = Inr 0x7F800000" by (rule t)
  from n(3) have 3: "hex_to_float (float_to_hex 0x80000000) = Inr 0x80000000" by (rule t)
  from n(4) have 4: "hex_to_float (float_to_hex 0) = Inr 0" by (rule t)
  from n 1 2 3 4 show ?thesis
    by (intro conjI)
qed

text \<open>
  The claim as first stated fails on the signalling NaNs: the pattern \<open>7fa00000\<close> is encoded
  as \<^verbatim>\<open>7fe00000\<close> and comes back as \<open>7fe00000\<close>.
\<close>

theorem float_codec_signalling_nan_counterexample:
  "is_nan 0x7FA00000 \<and> float_to_hex 0x7FA00000 = ''7fe00000'' \<and>
   hex_to_float (float_to_hex 0x7FA00000) = Inr 0x7FE00000 \<and>
   hex_to_float (float_to_hex 0x7FA00000) \<noteq> Inr 0x7FA00000"
proof -
  have nan: "is_nan 0x7FA00000"
    by (simp add: is_nan_def)
  have q: "quiet_nan 0x7FA00000 = 0x7FE00000"
    by (simp add: quiet_nan_def is_nan_def)
  have enc: "float_to_hex 0x7FA00000 = ''7fe00000''"
    by (simp add: float_to_hex_def struct_pack_f_def q float_bytes_nat format_02x_byte
        hex_digit_def)
  have dec: "hex_to_float (float_to_hex 0x7FA00000) = Inr 0x7FE00000"
    by (simp add: codec_roundtrip q)
  from nan enc dec show ?thesis
    by simp
qed

text \<open>
  Claim C5, amended (codec decode failure). \<open>hex_to_float\<close> succeeds exactly on the strings
  made of 8 hexadecimal digits in whole pairs, with ASCII whitespace allowed before, between
  and after the pairs and never inside one: the well-paired strings with 8 digits, among
  them every string of exactly 8 hexadecimal characters. It then returns the float32 whose
  big-endian bit pattern the digits denote, a signalling NaN as the quiet NaN of the same
  sign and payload. On every other string it fails: with \<^verbatim>\<open>ValueError\<close>, from
  \<^verbatim>\<open>bytes.fromhex\<close>, when a run of characters between whitespace holds a character that is
  not a hexadecimal digit or has an odd length, and with \<^verbatim>\<open>struct.error\<close>, from
  \<^verbatim>\<open>struct.unpack\<close>, when the string is well paired and its digits are not 8.
\<close>

theorem hex_to_float_decode:
  "(well_paired s \<and> length (concat (nonspace_runs s)) = 8 \<longrightarrow>
      hex_to_float s = Inr (quiet_nan (of_nat (hex_denotation (concat (nonspace_runs s)))))) \<and>
   (well_paired s \<and> length (concat (nonspace_runs s)) \<noteq> 8 \<longrightarrow>
      hex_to_float s = Inl StructError) \<and>
   (\<not> well_paired s \<longrightarrow> hex_to_float s = Inl ValueError) \<and>
   (length s = 8 \<and> list_all is_hex s \<longrightarrow>
      hex_to_float s = Inr (quiet_nan (of_nat (hex_denotation s))))"
  by (simp add: hex_to_float_well_paired hex_to_float_not_well_paired hex_to_float_digits)

theorem hex_to_float_decode_witness:
  "hex_to_float ''3F80000a'' = Inr 0x3F80000A \<and>
   hex_to_float ''3f 80 00 00'' = Inr 0x3F800000 \<and>
   hex_to_float ''7fa00000'' = Inr 0x7FE00000 \<and>
   hex_to_float ''3f8000'' = Inl StructError \<and>
   hex_to_float ''3 f800000'' = Inl ValueError \<and>
   hex_to_float ''3f80000g'' = Inl ValueError"
proof -
  have p: "well_paired ''3f 80 00 00''" "well_paired ''3f8000''"
    "\<not> well_paired ''3 f800000''" "\<not> well_paired ''3f80000g''"
    by (simp_all add: well_paired_def is_space_def is_hex_def digit_value_def)
  have r: "concat (nonspace_runs ''3f 80 00 00'') = ''3f800000''"
    "concat (nonspace_runs ''3f8000'') = ''3f8000''"
    by (simp_all add: is_space_def)
  have v: "quiet_nan (of_nat (hex_denotation ''3F80000a'')) = 0x3F80000A"
    "quiet_nan (of_nat (hex_denotation ''3f800000'')) = 0x3F800000"
    "quiet_nan (of_nat (hex_denotation ''7fa00000'')) = 0x7FE00000"
    by (simp_all add: hex_denotation_def digit_value_def quiet_nan_def is_nan_def)
  have "hex_to_float ''3F80000a'' = Inr (quiet_nan (of_nat (hex_denotation ''3F80000a'')))"
    by (rule hex_to_float_decode [THEN conjunct2, THEN conjunct2, THEN conjunct2, THEN mp])
      (simp add: is_hex_def digit_value_def)
  then have 1: "hex_to_float ''3F80000a'' = Inr 0x3F80000A"
    by (simp only: v)
  have "hex_to_float ''3f 80 00 00'' =
      Inr (quiet_nan (of_nat (hex_denotation (concat (nonspace_runs ''3f 80 00 00'')))))"
    by (rule hex_to_float_decode [THEN conjunct1, THEN mp]) (simp only: p r, simp)
  then have 2: "hex_to_float ''3f 80 00 00'' = Inr 0x3F800000"
    by (simp only: r v)
  have "hex_to_float ''7fa00000'' = Inr (quiet_nan (of_nat (hex_denotation ''7fa00000'')))"
    by (rule hex_to_float_decode [THEN conjunct2, THEN conjunct2, THEN conjunct2, THEN mp])
      (simp add: is_hex_def digit_value_def)
  then have 3: "hex_to_float ''7fa00000'' = Inr 0x7FE00000"
    by (simp only: v)
  have 4: "hex_to_float ''3f8000'' = Inl StructError"
    by (rule hex_to_float_decode [THEN conjunct2, THEN conjunct1, THEN mp])
      (simp only: p r, simp)
  have 5: "hex_to_float ''3 f800000'' = Inl ValueError"
    by (rule hex_to_float_decode [THEN conjunct2, THEN conjunct2, THEN conjunct1, THEN mp])
      (rule p)
  have 6: "hex_to_float ''3f80000g'' = Inl ValueError"
    by (rule hex_to_float_decode [THEN conjunct2, THEN conjunct2, THEN conjunct1, THEN mp])
      (rule p)
  from 1 2 3 4 5 6 show ?thesis
    by (intro conjI)
qed

text \<open>
  The claim as first stated fails in both halves: a string of 9 characters with a blank
  between the digit pairs decodes to \<open>1.0\<close>, and the 8 hexadecimal characters \<^verbatim>\<open>7fa00000\<close>
  decode to the float of pattern \<open>7fe00000\<close>, not to the pattern they denote.
\<close>

theorem hex_to_float_whitespace_counterexample:
  "length ''3f80 0000'' \<noteq> 8 \<and> \<not> list_all is_hex ''3f80 0000'' \<and>
   hex_to_float ''3f80 0000'' = Inr 0x3F800000 \<and>
   length ''7fa00000'' = 8 \<and> list_all is_hex ''7fa00000'' \<and>
   (of_nat (hex_denotation ''7fa00000'') :: float32) = 0x7FA00000 \<and>
   hex_to_float ''7fa00000'' = Inr 0x7FE00000"
  by (simp add: hex_to_float_def is_space_def digit_value_def struct_unpack_f_def is_hex_def
      bytes_float_def hex_denotation_def quiet_nan_def is_nan_def)

section \<open>Properties of max pooling\<close>

subsection \<open>Slices and windows\<close>

lemma take_drop_map_nth:
  "s + k \<le> length xs \<Longrightarrow> take k (drop s xs) = map (\<lambda>a. xs ! (s + a)) [0..<k]"
  by (rule nth_equalityI) simp_all

lemma slice_indices_inside:
  "s + k \<le> n \<Longrightarrow> slice_indices n (int s) (int s + int k) = (s, k)"
  by (simp add: slice_indices_def Let_def min_def)

lemma py_slice_inside:
  "s + k \<le> length xs \<Longrightarrow> py_slice xs (int s) (int s + int k) = map (\<lambda>a. xs ! (s + a)) [0..<k]"
  by (simp add: py_slice_def slice_indices_inside take_drop_map_nth)

lemma wf_array_nth: "wf_array a \<Longrightarrow> i < nrows a \<Longrightarrow> length (rows a ! i) = ncols a"
  by (simp add: wf_array_def nrows_def list_all_length)

lemma rows_slice2d_inside:
  assumes "wf_array a" and "r + ph \<le> nrows a" and "c + pw \<le> ncols a"
  shows "rows (slice2d a (int r) (int r + int ph) (int c) (int c + int pw)) =
    map (\<lambda>da. map (\<lambda>db. cell a (r + da) (c + db)) [0..<pw]) [0..<ph]"
proof -
  have "py_slice (rows a ! (r + da)) (int c) (int c + int pw) =
      map (\<lambda>db. cell a (r + da) (c + db)) [0..<pw]" if "da < ph" for da
  proof -
    from that assms(2) have "r + da < nrows a" by simp
    with assms(1) have "length (rows a ! (r + da)) = ncols a" by (rule wf_array_nth)
    with assms(3) show ?thesis by (simp add: py_slice_inside cell_def)
  qed
  moreover from assms(2) have "py_slice (rows a) (int r) (int r + int ph) =
      map (\<lambda>da. rows a ! (r + da)) [0..<ph]"
    by (simp add: py_slice_inside nrows_def)
  ultimately show ?thesis
    by (simp add: slice2d_def)
qed

lemma set_flatten_window:
  assumes "wf_array a" and "r + ph \<le> nrows a" and "c + pw \<le> ncols a"
  shows "set (flatten (slice2d a (int r) (int r + int ph) (int c) (int c + int pw))) =
    window_cells a r c ph pw"
  by (auto simp: flatten_def rows_slice2d_inside [OF assms] window_cells_def)

lemma np_max_Max:
  "flatten w \<noteq> [] \<Longrightarrow> np_max w = Inr (Max (set (flatten w)))"
  by (cases "flatten w") (simp_all add: np_max_def Max.set_eq_fold [symmetric])

lemma np_max_window:
  assumes "wf_array a" and "r + ph \<le> nrows a" and "c + pw \<le> ncols a" and "0 < ph" and "0 < pw"
  shows "np_max (slice2d a (int r) (int r + int ph) (int c) (int c + int pw)) =
    Inr (Max (window_cells a r c ph pw))"
proof -
  let ?w = "slice2d a (int r) (int r + int ph) (int c) (int c + int pw)"
  from assms(4,5) have "window_cells a r c ph pw \<noteq> {}"
    by (auto simp: window_cells_def)
  then have "flatten ?w \<noteq> []"
    using set_flatten_window [OF assms(1-3)] by auto
  then show ?thesis
    by (simp add: np_max_Max set_flatten_window [OF assms(1-3)])
qed


subsection \<open>Writing cells\<close>

lemma set_cell_simps [simp]:
  "ncols (set_cell a i j v) = ncols a"
  "nrows (set_cell a i j v) = nrows a"
  by (simp_all add: set_cell_def nrows_def)

lemma wf_set_cell: "wf_array a \<Longrightarrow> wf_array (set_cell a i j v)"
  by (cases "i < length (rows a)")
    (auto simp: wf_array_def set_cell_def list_all_length nth_list_update)

lemma cell_set_cell:
  assumes "wf_array a" and "i < nrows a" and "j < ncols a"
  shows "cell (set_cell a i j v) i' j' = (if i' = i \<and> j' = j then v else cell a i' j')"
proof -
  from assms have "j < length (rows a ! i)"
    by (simp add: wf_array_nth)
  with assms(2) show ?thesis
    by (cases "i' < nrows a")
      (auto simp: cell_def set_cell_def nrows_def nth_list_update)
qed

lemma fold_set_cell_shape [simp]:
  "ncols (fold (\<lambda>j out. set_cell out i j (f j)) js out) = ncols out"
  "nrows (fold (\<lambda>j out. set_cell out i j (f j)) js out) = nrows out"
  by (induction js arbitrary: out) simp_all

lemma wf_fold_set_cell:
  "wf_array out \<Longrightarrow> wf_array (fold (\<lambda>j out. set_cell out i j (f j)) js out)"
  by (induction js arbitrary: out) (simp_all add: wf_set_cell)

lemma cell_fold_set_cell:
  assumes "wf_array out" and "i < nrows out" and "\<forall>j\<in>set js. j < ncols out"
  shows "cell (fold (\<lambda>j out. set_cell out i j (f j)) js out) i' j' =
    (if i' = i \<and> j' \<in> set js then f j' else cell out i' j')"
  using assms
proof (induction js arbitrary: out)
  case Nil
  show ?case by simp
next
  case (Cons j js)
  have "cell (fold (\<lambda>j out. set_cell out i j (f j)) js (set_cell out i j (f j))) i' j' =
    (if i' = i \<and> j' \<in> set js then f j' else cell (set_cell out i j (f j)) i' j')"
    using Cons.prems by (intro Cons.IH) (simp_all add: wf_set_cell)
  then show ?case
    using Cons.prems by (auto simp: cell_set_cell)
qed

subsection \<open>The loops of max pooling\<close>

lemma maxpool_cols_fold:
  assumes "\<forall>j\<in>set js.
    np_max (slice2d inp (int i * sh) (int i * sh + ph) (int j * sw) (int j * sw + pw)) = Inr (f j)"
  shows "maxpool_cols inp ph pw sh sw i js out =
    Inr (fold (\<lambda>j out. set_cell out i j (f j)) js out)"
  using assms by (induction js arbitrary: out) simp_all

lemma maxpool_rows_fold:
  assumes "\<forall>i\<in>set is. \<forall>j\<in>set js.
    np_max (slice2d inp (int i * sh) (int i * sh + ph) (int j * sw) (int j * sw + pw)) = Inr (f i j)"
  shows "maxpool_rows inp ph pw sh sw is js out =
    Inr (fold (\<lambda>i out. fold (\<lambda>j out. set_cell out i j (f i j)) js out) is out)"
  using assms
proof (induction "is" arbitrary: out)
  case Nil
  show ?case by simp
next
  case (Cons i "is")
  from Cons.prems have "maxpool_cols inp ph pw sh sw i js out =
      Inr (fold (\<lambda>j out. set_cell out i j (f i j)) js out)"
    by (intro maxpool_cols_fold) simp
  moreover from Cons.prems have "maxpool_rows inp ph pw sh sw is js out' =
      Inr (fold (\<lambda>i out. fold (\<lambda>j out. set_cell out i j (f i j)) js out) is out')" for out'
    by (intro Cons.IH) simp
  ultimately show ?case by simp
qed

lemma fold_rows_shape [simp]:
  "ncols (fold (\<lambda>i out. fold (\<lambda>j out. set_cell out i j (f i j)) js out) is out) = ncols out"
  "nrows (fold (\<lambda>i out. fold (\<lambda>j out. set_cell out i j (f i j)) js out) is out) = nrows out"
  by (induction "is" arbitrary: out) simp_all

lemma wf_fold_rows:
  "wf_array out \<Longrightarrow>
    wf_array (fold (\<lambda>i out. fold (\<lambda>j out. set_cell out i j (f i j)) js out) is out)"
  by (induction "is" arbitrary: out) (simp_all add: wf_fold_set_cell)

lemma cell_fold_rows:
  assumes "wf_array out" and "\<forall>i\<in>set is. i < nrows out" and "\<forall>j\<in>set js. j < ncols out"
  shows "cell (fold (\<lambda>i out. fold (\<lambda>j out. set_cell out i j (f i j)) js out) is out) i' j' =
    (if i' \<in> set is \<and> j' \<in> set js then f i' j' else cell out i' j')"
  using assms
proof (induction "is" arbitrary: out)
  case Nil
  show ?case by simp
next
  case (Cons i "is")
  let ?out = "fold (\<lambda>j out. set_cell out i j (f i j)) js out"
  have "cell (fold (\<lambda>i out. fold (\<lambda>j out. set_cell out i j (f i j)) js out) is ?out) i' j' =
    (if i' \<in> set is \<and> j' \<in> set js then f i' j' else cell ?out i' j')"
    using Cons.prems by (intro Cons.IH) (simp_all add: wf_fold_set_cell)
  moreover have "cell ?out i' j' = (if i' = i \<and> j' \<in> set js then f i j' else cell out i' j')"
    using Cons.prems by (intro cell_fold_set_cell) simp_all
  ultimately show ?case by auto
qed


subsection \<open>Padding and allocation\<close>

lemma np_pad_shape [simp]:
  "ncols (np_pad a p) = ncols a + 2 * p"
  "nrows (np_pad a p) = nrows a + 2 * p"
  by (simp_all add: np_pad_def Let_def nrows_def)

lemma wf_np_pad: "wf_array a \<Longrightarrow> wf_array (np_pad a p)"
  by (auto simp: wf_array_def np_pad_def Let_def list_all_iff)

lemma np_pad_0: "np_pad a 0 = a"
  by (cases a) (simp add: np_pad_def)

lemma cell_np_pad:
  assumes "wf_array a" and "r < nrows a + 2 * p" and "c < ncols a + 2 * p"
  shows "cell (np_pad a p) r c = padded_cell a p r c"
proof -
  let ?w = "ncols a + 2 * p"
  let ?mid = "map (\<lambda>r. replicate p 0 @ r @ replicate p 0) (rows a)"
  consider "r < p" | "p \<le> r" "r < p + nrows a" | "p + nrows a \<le> r"
    by linarith
  then show ?thesis
  proof cases
    case 1
    with assms(3) show ?thesis
      by (simp add: cell_def np_pad_def Let_def nth_append padded_cell_def)
  next
    case 2
    then have i: "r - p < nrows a" by simp
    with assms(1) have len: "length (rows a ! (r - p)) = ncols a"
      by (rule wf_array_nth)
    from 2 i have "rows (np_pad a p) ! r = replicate p 0 @ rows a ! (r - p) @ replicate p 0"
      by (simp add: np_pad_def Let_def nth_append nrows_def)
    with 2 assms(3) len show ?thesis
      by (auto simp: cell_def padded_cell_def nth_append)
  next
    case 3
    with assms(2) have "r - (p + nrows a) < p" by simp
    with 3 assms(3) show ?thesis
      by (auto simp: cell_def np_pad_def Let_def nth_append padded_cell_def nrows_def)
  qed
qed

lemma np_zeros_nonneg:
  "0 \<le> h \<Longrightarrow> 0 \<le> w \<Longrightarrow>
    np_zeros h w = Inr (Array2d (nat w) (replicate (nat h) (replicate (nat w) 0)))"
  by (simp add: np_zeros_def)

lemma np_zeros_negative: "h < 0 \<or> w < 0 \<Longrightarrow> np_zeros h w = Inl ValueError"
  by (auto simp: np_zeros_def)

lemma wf_zeros: "wf_array (Array2d w (replicate h (replicate w z)))"
  by (simp add: wf_array_def list_all_iff)

subsection \<open>Arithmetic of the output dimensions\<close>

lemma window_fits:
  assumes "0 < sh" and "int i < (int H - int ph) div int sh + 1"
  shows "i * sh + ph \<le> H"
proof -
  let ?a = "int H - int ph"
  from assms(2) have "int i \<le> ?a div int sh" by simp
  then have "int i * int sh \<le> ?a div int sh * int sh"
    by (rule mult_right_mono) simp
  also have "\<dots> \<le> ?a"
  proof -
    have "?a div int sh * int sh + ?a mod int sh = ?a"
      by (rule div_mult_mod_eq)
    moreover have "0 \<le> ?a mod int sh"
      using assms(1) by simp
    ultimately show ?thesis by linarith
  qed
  finally have "int (i * sh + ph) \<le> int H"
    by simp
  then show ?thesis
    by (simp only: of_nat_le_iff)
qed


subsection \<open>The result of max pooling\<close>

lemma apply_maxpool_2d_result:
  fixes x :: "'a::{linorder,zero} array2d"
  assumes wf: "wf_array x"
    and pos: "0 < ph" "0 < pw" "0 < sh" "0 < sw"
    and oh: "oh = (int (nrows x) + 2 * int p - int ph) div int sh + 1"
    and ow: "ow = (int (ncols x) + 2 * int p - int pw) div int sw + 1"
    and nonneg: "0 \<le> oh" "0 \<le> ow"
  shows "\<exists>out. apply_maxpool_2d x (int ph) (int pw) (Some (int sh)) (Some (int sw)) (int p) = Inr out
    \<and> wf_array out \<and> nrows out = nat oh \<and> ncols out = nat ow
    \<and> (\<forall>i<nat oh. \<forall>j<nat ow.
          cell out i j = Max (window_cells (np_pad x p) (i * sh) (j * sw) ph pw))"
proof -
  define inp where "inp = np_pad x p"
  define f where "f i j = Max (window_cells inp (i * sh) (j * sw) ph pw)" for i j
  define z :: "'a array2d" where "z = Array2d (nat ow) (replicate (nat oh) (replicate (nat ow) 0))"
  define out where
    "out = fold (\<lambda>i out. fold (\<lambda>j out. set_cell out i j (f i j)) [0..<nat ow] out) [0..<nat oh] z"
  have padded: "(if int p > 0 then np_pad x (nat (int p)) else x) = inp"
    by (cases "p = 0") (simp_all add: inp_def np_pad_0)
  have wf_inp: "wf_array inp"
    unfolding inp_def using wf by (rule wf_np_pad)
  have oh': "oh = (int (nrows inp) - int ph) div int sh + 1"
    and ow': "ow = (int (ncols inp) - int pw) div int sw + 1"
    by (simp_all add: oh ow inp_def)
  have win: "np_max (slice2d inp (int i * int sh) (int i * int sh + int ph)
        (int j * int sw) (int j * int sw + int pw)) = Inr (f i j)"
    if "i < nat oh" and "j < nat ow" for i j
  proof -
    from that have "int i < oh" and "int j < ow" by simp_all
    then have "i * sh + ph \<le> nrows inp" and "j * sw + pw \<le> ncols inp"
      using pos by (auto simp: oh' ow' intro: window_fits)
    with wf_inp have "np_max (slice2d inp (int (i * sh)) (int (i * sh) + int ph)
        (int (j * sw)) (int (j * sw) + int pw)) = Inr (Max (window_cells inp (i * sh) (j * sw) ph pw))"
      using pos by (intro np_max_window)
    then show ?thesis by (simp add: f_def)
  qed
  have loops: "maxpool_rows inp (int ph) (int pw) (int sh) (int sw) [0..<nat oh] [0..<nat ow] z = Inr out"
    unfolding out_def by (rule maxpool_rows_fold) (simp add: win)
  have wf_z: "wf_array z"
    unfolding z_def by (rule wf_zeros)
  have shape_z: "nrows z = nat oh" "ncols z = nat ow"
    by (simp_all add: z_def nrows_def)
  have run: "apply_maxpool_2d x (int ph) (int pw) (Some (int sh)) (Some (int sw)) (int p) = Inr out"
    using pos nonneg loops
    by (simp add: apply_maxpool_2d_def padded floor_div_def oh' [symmetric] ow' [symmetric]
        np_zeros_nonneg z_def [symmetric] del: of_nat_0_less_iff)
  have "wf_array out"
    unfolding out_def using wf_z by (rule wf_fold_rows)
  moreover have "nrows out = nat oh" "ncols out = nat ow"
    by (simp_all add: out_def shape_z)
  moreover have "cell out i j = f i j" if "i < nat oh" and "j < nat ow" for i j
    unfolding out_def using that by (subst cell_fold_rows) (simp_all add: wf_z shape_z)
  ultimately show ?thesis
    using run by (auto simp: f_def inp_def)
qed

subsection \<open>The claims on max pooling\<close>

lemma apply_maxpool_2d_default_strides:
  "apply_maxpool_2d x ph pw stride_h stride_w p =
    apply_maxpool_2d x ph pw (Some (case stride_h of None \<Rightarrow> ph | Some s \<Rightarrow> s))
      (Some (case stride_w of None \<Rightarrow> pw | Some s \<Rightarrow> s)) p"
  by (simp add: apply_maxpool_2d_def)

lemma apply_maxpool_2d_strides:
  assumes "sh = (case stride_h of None \<Rightarrow> ph | Some s \<Rightarrow> s)"
    and "sw = (case stride_w of None \<Rightarrow> pw | Some s \<Rightarrow> s)"
  shows "apply_maxpool_2d x (int ph) (int pw) (map_option int stride_h) (map_option int stride_w) p =
    apply_maxpool_2d x (int ph) (int pw) (Some (int sh)) (Some (int sw)) p"
  unfolding assms
  by (subst apply_maxpool_2d_default_strides) (simp split: option.splits)

lemma apply_maxpool_2d_shape:
  fixes x :: "'a::{linorder,zero} array2d"
  assumes "wf_array x" and "shape x = (H0, W0)"
    and "0 < ph" and "0 < pw"
    and "sh = (case stride_h of None \<Rightarrow> ph | Some s \<Rightarrow> s)"
    and "sw = (case stride_w of None \<Rightarrow> pw | Some s \<Rightarrow> s)"
    and "0 < sh" and "0 < sw"
    and "out_h = (int H0 + 2 * int p - int ph) div int sh + 1"
    and "out_w = (int W0 + 2 * int p - int pw) div int sw + 1"
    and "0 \<le> out_h" and "0 \<le> out_w"
  shows "\<exists>out. apply_maxpool_2d x (int ph) (int pw) (map_option int stride_h)
            (map_option int stride_w) (int p) = Inr out
          \<and> wf_array out \<and> int (nrows out) = out_h \<and> int (ncols out) = out_w"
proof -
  from assms(2) have dims: "nrows x = H0" "ncols x = W0"
    by (simp_all add: shape_def)
  from apply_maxpool_2d_result [OF assms(1,3,4,7,8), of out_h p out_w]
  obtain out where "apply_maxpool_2d x (int ph) (int pw) (Some (int sh)) (Some (int sw)) (int p) = Inr out"
    and "wf_array out" and "nrows out = nat out_h" and "ncols out = nat out_w"
    using assms(9-12) by (auto simp: dims)
  with assms(11,12) show ?thesis
    by (simp add: apply_maxpool_2d_strides [OF assms(5,6)])
qed



lemma flatten_empty:
  assumes "wf_array a" and "nrows a = 0 \<or> ncols a = 0"
  shows "flatten a = []"
  using assms by (auto simp: flatten_def wf_array_def nrows_def list_all_iff)

lemma out_dim_default_stride:
  assumes "0 < ph"
  shows "0 \<le> (int H - int ph) div int ph + 1"
proof -
  have "- int ph \<le> int H - int ph" by simp
  then have "(- int ph) div int ph \<le> (int H - int ph) div int ph"
    using assms by (intro zdiv_mono1) simp_all
  moreover have "(- int ph) div int ph = - 1"
    using assms by (simp add: zdiv_zminus1_eq_if)
  ultimately show ?thesis by simp
qed

lemma out_dim_window_too_large:
  assumes "0 < sh" and "H < ph"
  shows "(int H - int ph) div int sh + 1 \<le> 0"
proof -
  from assms have "(int H - int ph) div int sh < 0"
    by (simp add: div_neg_pos_less0)
  then show ?thesis by simp
qed

lemma apply_maxpool_2d_negative:
  assumes "0 < sh" and "0 < sw"
    and "(int (nrows x) + 2 * int p - ph) div int sh + 1 < 0
       \<or> (int (ncols x) + 2 * int p - pw) div int sw + 1 < 0"
  shows "apply_maxpool_2d x ph pw (Some (int sh)) (Some (int sw)) (int p) = Inl ValueError"
proof -
  have padded: "(if int p > 0 then np_pad x (nat (int p)) else x) = np_pad x p"
    by (cases "p = 0") (simp_all add: np_pad_0)
  from assms show ?thesis
    by (simp add: apply_maxpool_2d_def padded floor_div_def np_zeros_negative
        del: of_nat_0_less_iff)
qed

lemma window_cells_np_pad:
  assumes "wf_array x" and "r + ph \<le> nrows x + 2 * p" and "c + pw \<le> ncols x + 2 * p"
  shows "window_cells (np_pad x p) r c ph pw =
    (\<lambda>(da, db). padded_cell x p (r + da) (c + db)) ` ({..<ph} \<times> {..<pw})"
  unfolding window_cells_def
proof (rule image_cong [OF refl])
  fix d assume "d \<in> {..<ph} \<times> {..<pw}"
  then obtain da db where d: "d = (da, db)" and "da < ph" "db < pw"
    by auto
  with assms(2,3) have "r + da < nrows x + 2 * p" and "c + db < ncols x + 2 * p"
    by simp_all
  with assms(1) show "(case d of (da, db) \<Rightarrow> cell (np_pad x p) (r + da) (c + db)) =
      (case d of (da, db) \<Rightarrow> padded_cell x p (r + da) (c + db))"
    by (simp add: d cell_np_pad)
qed

lemma maxpool_example_padding:
  "apply_maxpool_2d (Array2d 2 [[-1,-1],[-1,-1::int]]) 2 2 None None 1 = Inr (Array2d 2 [[0, 0], [0, 0]])"
  by code_simp

text \<open>
  Claim C2 (output shape of max pooling). For a 2D input of \<open>H0\<close> rows and \<open>W0\<close> columns, a
  window of \<open>ph\<close> by \<open>pw\<close>, strides \<open>sh\<close> and \<open>sw\<close> (each the window dimension when the
  stride is not given) and padding \<open>p\<close>, \<open>apply_maxpool_2d\<close> returns an array of \<open>out_h\<close>
  rows and \<open>out_w\<close> columns, where \<open>out_h = floor ((H0 + 2p - ph) / sh) + 1\<close> and
  \<open>out_w = floor ((W0 + 2p - pw) / sw) + 1\<close>. Window and strides are positive, and the two
  numbers are not negative: they are the dimensions of an array.
\<close>

theorem maxpool_output_shape:
  fixes x :: "'a::{linorder,zero} array2d"
  assumes "wf_array x" and "shape x = (H0, W0)"
    and "0 < ph" and "0 < pw"
    and "sh = (case stride_h of None \<Rightarrow> ph | Some s \<Rightarrow> s)"
    and "sw = (case stride_w of None \<Rightarrow> pw | Some s \<Rightarrow> s)"
    and "0 < sh" and "0 < sw"
    and "out_h = (int H0 + 2 * int p - int ph) div int sh + 1"
    and "out_w = (int W0 + 2 * int p - int pw) div int sw + 1"
    and "0 \<le> out_h" and "0 \<le> out_w"
  shows "\<exists>out. apply_maxpool_2d x (int ph) (int pw) (map_option int stride_h)
            (map_option int stride_w) (int p) = Inr out
          \<and> wf_array out \<and> int (nrows out) = out_h \<and> int (ncols out) = out_w"
  using assms by (rule apply_maxpool_2d_shape)

theorem maxpool_output_shape_witness:
  "wf_array (Array2d 4 [[1,2,3,4],[5,6,7,8],[9,10,11,12],[13,14,15,16::int]]) \<and>
   shape (Array2d 4 [[1,2,3,4],[5,6,7,8],[9,10,11,12],[13,14,15,16::int]]) = (4, 4) \<and>
   (\<exists>out. apply_maxpool_2d (Array2d 4 [[1,2,3,4],[5,6,7,8],[9,10,11,12],[13,14,15,16::int]])
            2 2 (Some 2) None 0 = Inr out
       \<and> wf_array out \<and> int (nrows out) = (4 + 2 * 0 - 2) div 2 + 1 \<and> int (ncols out) = 2)"
proof -
  let ?x = "Array2d 4 [[1,2,3,4],[5,6,7,8],[9,10,11,12],[13,14,15,16::int]]"
  have wf: "wf_array ?x" and sh: "shape ?x = (4, 4)"
    by (simp_all add: wf_array_def shape_def nrows_def)
  from maxpool_output_shape [OF wf sh, of 2 2 2 "Some 2" 2 None 2 0 2]
  show ?thesis
    using wf sh by simp
qed

text \<open>
  Claim C3, amended (window larger than the padded input). When the window, of positive size
  and with positive strides, exceeds the padded input in height or in width,
  \<open>apply_maxpool_2d\<close> raises no error as long as the two computed output dimensions are not
  negative, which is always so with the default strides: it returns an array with the
  computed dimensions and without elements. It fails, with the \<^verbatim>\<open>ValueError\<close> of \<^verbatim>\<open>np.zeros\<close>,
  when a computed dimension is negative.
\<close>

theorem maxpool_window_too_large:
  fixes x :: "'a::{linorder,zero} array2d"
  assumes "wf_array x" and "shape x = (H0, W0)"
    and "0 < ph" and "0 < pw"
    and "sh = (case stride_h of None \<Rightarrow> ph | Some s \<Rightarrow> s)"
    and "sw = (case stride_w of None \<Rightarrow> pw | Some s \<Rightarrow> s)"
    and "0 < sh" and "0 < sw"
    and "out_h = (int H0 + 2 * int p - int ph) div int sh + 1"
    and "out_w = (int W0 + 2 * int p - int pw) div int sw + 1"
    and "H0 + 2 * p < ph \<or> W0 + 2 * p < pw"
  shows "(0 \<le> out_h \<and> 0 \<le> out_w \<longrightarrow>
           (\<exists>out. apply_maxpool_2d x (int ph) (int pw) (map_option int stride_h)
                    (map_option int stride_w) (int p) = Inr out
              \<and> shape out = (nat out_h, nat out_w) \<and> flatten out = []))
       \<and> (out_h < 0 \<or> out_w < 0 \<longrightarrow>
             apply_maxpool_2d x (int ph) (int pw) (map_option int stride_h)
               (map_option int stride_w) (int p) = Inl ValueError)
       \<and> (stride_h = None \<and> stride_w = None \<longrightarrow> 0 \<le> out_h \<and> 0 \<le> out_w)"
proof (intro conjI impI)
  from assms(2) have dims: "nrows x = H0" "ncols x = W0"
    by (simp_all add: shape_def)
  have oh: "out_h = (int (H0 + 2 * p) - int ph) div int sh + 1"
    and ow: "out_w = (int (W0 + 2 * p) - int pw) div int sw + 1"
    by (simp_all add: assms(9,10))
  {
    assume nonneg: "0 \<le> out_h \<and> 0 \<le> out_w"
    from apply_maxpool_2d_shape [OF assms(1-10)] nonneg
    obtain out where run: "apply_maxpool_2d x (int ph) (int pw) (map_option int stride_h)
            (map_option int stride_w) (int p) = Inr out"
      and wf: "wf_array out" and n: "int (nrows out) = out_h" "int (ncols out) = out_w"
      by blast
    have "out_h \<le> 0" if "H0 + 2 * p < ph"
      unfolding oh using assms(7) that by (rule out_dim_window_too_large)
    moreover have "out_w \<le> 0" if "W0 + 2 * p < pw"
      unfolding ow using assms(8) that by (rule out_dim_window_too_large)
    ultimately have "out_h \<le> 0 \<or> out_w \<le> 0"
      using assms(11) by blast
    with nonneg n have "nrows out = 0 \<or> ncols out = 0"
      by auto
    with wf have "flatten out = []"
      by (rule flatten_empty)
    moreover from n have "shape out = (nat out_h, nat out_w)"
      by (auto simp: shape_def)
    ultimately show "\<exists>out. apply_maxpool_2d x (int ph) (int pw) (map_option int stride_h)
                    (map_option int stride_w) (int p) = Inr out
              \<and> shape out = (nat out_h, nat out_w) \<and> flatten out = []"
      using run by blast
  }
  {
    assume "out_h < 0 \<or> out_w < 0"
    then show "apply_maxpool_2d x (int ph) (int pw) (map_option int stride_h)
               (map_option int stride_w) (int p) = Inl ValueError"
      unfolding apply_maxpool_2d_strides [OF assms(5,6)]
      using assms(7,8) by (intro apply_maxpool_2d_negative) (simp_all add: dims assms(9,10))
  }
  {
    assume "stride_h = None \<and> stride_w = None"
    with assms(5,6) have "sh = ph" "sw = pw" by simp_all
    then show "0 \<le> out_h" "0 \<le> out_w"
      unfolding oh ow using assms(3,4) by (simp_all only: out_dim_default_stride)
  }
qed


theorem maxpool_window_too_large_witness:
  "wf_array (Array2d 2 [[-1,-1],[-1,-1::int]]) \<and> shape (Array2d 2 [[-1,-1],[-1,-1::int]]) = (2, 2) \<and>
   (\<exists>out. apply_maxpool_2d (Array2d 2 [[-1,-1],[-1,-1::int]]) 3 3 None None 0 = Inr out
      \<and> shape out = (0, 0) \<and> flatten out = []) \<and>
   apply_maxpool_2d (Array2d 2 [[-1,-1],[-1,-1::int]]) 4 4 (Some 1) (Some 1) 0 = Inl ValueError"
proof -
  let ?x = "Array2d 2 [[-1,-1],[-1,-1::int]]"
  have wf: "wf_array ?x" and sh: "shape ?x = (2, 2)"
    by (simp_all add: wf_array_def shape_def nrows_def)
  note empty = maxpool_window_too_large [OF wf sh, where ph = 3 and pw = 3 and stride_h = None
      and stride_w = None and sh = 3 and sw = 3 and p = 0 and out_h = 0 and out_w = 0]
  have "\<exists>out. apply_maxpool_2d ?x (int 3) (int 3) (map_option int None) (map_option int None)
            (int 0) = Inr out
          \<and> shape out = (nat 0, nat 0) \<and> flatten out = []"
    by (rule empty [THEN conjunct1, THEN mp]) simp_all
  then have 1: "\<exists>out. apply_maxpool_2d ?x 3 3 None None 0 = Inr out
      \<and> shape out = (0, 0) \<and> flatten out = []"
    by simp
  note negative = maxpool_window_too_large [OF wf sh, where ph = 4 and pw = 4
      and stride_h = "Some 1" and stride_w = "Some 1" and sh = 1 and sw = 1 and p = 0
      and out_h = "- 1" and out_w = "- 1"]
  have "apply_maxpool_2d ?x (int 4) (int 4) (map_option int (Some 1)) (map_option int (Some 1))
          (int 0) = Inl ValueError"
    by (rule negative [THEN conjunct2, THEN conjunct1, THEN mp]) simp_all
  then have 2: "apply_maxpool_2d ?x 4 4 (Some 1) (Some 1) 0 = Inl ValueError"
    by simp
  from wf sh 1 2 show ?thesis
    by (intro conjI)
qed

text \<open>
  The claim as first stated fails: a window of 3 by 3 on an input of 2 by 2 without padding
  is returned an empty array, and no error is raised.
\<close>

theorem maxpool_empty_output_counterexample:
  "wf_array (Array2d 2 [[-1,-1],[-1,-1::int]]) \<and> shape (Array2d 2 [[-1,-1],[-1,-1::int]]) = (2, 2) \<and>
   (2::int) + 2 * 0 < 3 \<and>
   apply_maxpool_2d (Array2d 2 [[-1,-1],[-1,-1::int]]) 3 3 None None 0 = Inr (Array2d 0 [])"
  by code_simp

text \<open>
  Claim C4 (cells of max pooling with zero padding). The input is surrounded by \<open>p\<close> rows
  and columns of zeros on its four sides, and the output cell \<open>(i, j)\<close> is the maximum of
  the padded input over the window that starts at row \<open>i * sh\<close> and column \<open>j * sw\<close> and
  spans \<open>ph\<close> rows and \<open>pw\<close> columns. On the input of 2 by 2 with all cells \<open>-1\<close>, window 2
  by 2 and padding 1, every output cell is \<open>0\<close>: the instance proved after the theorem.
\<close>

theorem maxpool_cell_semantics:
  fixes x :: "'a::{linorder,zero} array2d"
  assumes "wf_array x" and "shape x = (H0, W0)"
    and "0 < ph" and "0 < pw"
    and "sh = (case stride_h of None \<Rightarrow> ph | Some s \<Rightarrow> s)"
    and "sw = (case stride_w of None \<Rightarrow> pw | Some s \<Rightarrow> s)"
    and "0 < sh" and "0 < sw"
    and "out_h = (int H0 + 2 * int p - int ph) div int sh + 1"
    and "out_w = (int W0 + 2 * int p - int pw) div int sw + 1"
    and "int i < out_h" and "int j < out_w"
  shows "\<exists>out. apply_maxpool_2d x (int ph) (int pw) (map_option int stride_h)
            (map_option int stride_w) (int p) = Inr out
          \<and> cell out i j =
              Max ((\<lambda>(da, db). padded_cell x p (i * sh + da) (j * sw + db)) ` ({..<ph} \<times> {..<pw}))"
proof -
  from assms(2) have dims: "nrows x = H0" "ncols x = W0"
    by (simp_all add: shape_def)
  have oh: "out_h = (int (nrows x) + 2 * int p - int ph) div int sh + 1"
    and ow: "out_w = (int (ncols x) + 2 * int p - int pw) div int sw + 1"
    by (simp_all add: assms(9,10) dims)
  from assms(11,12) have nonneg: "0 \<le> out_h" "0 \<le> out_w" and ij: "i < nat out_h" "j < nat out_w"
    by simp_all
  from apply_maxpool_2d_result [OF assms(1,3,4,7,8) oh ow nonneg] ij
  obtain out where run: "apply_maxpool_2d x (int ph) (int pw) (Some (int sh)) (Some (int sw)) (int p) = Inr out"
    and c: "cell out i j = Max (window_cells (np_pad x p) (i * sh) (j * sw) ph pw)"
    by blast
  have "int i < (int (nrows x + 2 * p) - int ph) div int sh + 1"
    and "int j < (int (ncols x + 2 * p) - int pw) div int sw + 1"
    using assms(11,12) by (simp_all add: oh ow)
  then have "i * sh + ph \<le> nrows x + 2 * p" and "j * sw + pw \<le> ncols x + 2 * p"
    using assms(7,8) by (auto intro: window_fits)
  with assms(1) have "window_cells (np_pad x p) (i * sh) (j * sw) ph pw =
      (\<lambda>(da, db). padded_cell x p (i * sh + da) (j * sw + db)) ` ({..<ph} \<times> {..<pw})"
    by (rule window_cells_np_pad)
  with run c show ?thesis
    by (simp add: apply_maxpool_2d_strides [OF assms(5,6)])
qed

theorem maxpool_cell_semantics_witness:
  "wf_array (Array2d 2 [[-1,-1],[-1,-1::int]]) \<and> shape (Array2d 2 [[-1,-1],[-1,-1::int]]) = (2, 2) \<and>
   (\<exists>out. apply_maxpool_2d (Array2d 2 [[-1,-1],[-1,-1::int]]) 2 2 None None 1 = Inr out
      \<and> cell out 1 0 = Max ((\<lambda>(da, db). padded_cell (Array2d 2 [[-1,-1],[-1,-1::int]]) 1
                                (1 * 2 + da) (0 * 2 + db)) ` ({..<2} \<times> {..<2}))
      \<and> cell out 0 0 = 0 \<and> cell out 0 1 = 0 \<and> cell out 1 0 = 0 \<and> cell out 1 1 = 0)"
proof -
  let ?x = "Array2d 2 [[-1,-1],[-1,-1::int]]"
  let ?m = "Max ((\<lambda>(da, db). padded_cell ?x 1 (1 * 2 + da) (0 * 2 + db)) ` ({..<2} \<times> {..<2}))"
  have wf: "wf_array ?x" and sh: "shape ?x = (2, 2)"
    by (simp_all add: wf_array_def shape_def nrows_def)
  note t = maxpool_cell_semantics [OF wf sh, where ph = 2 and pw = 2 and stride_h = None
      and stride_w = None and sh = 2 and sw = 2 and p = 1 and out_h = 2 and out_w = 2
      and i = 1 and j = 0]
  have "\<exists>out. apply_maxpool_2d ?x (int 2) (int 2) (map_option int None) (map_option int None)
            (int 1) = Inr out \<and> cell out 1 0 = ?m"
    by (rule t) simp_all
  then obtain out where run: "apply_maxpool_2d ?x 2 2 None None 1 = Inr out"
    and c: "cell out 1 0 = ?m"
    by (elim exE conjE) simp
  from run have "out = Array2d 2 [[0, 0], [0, 0]]"
    by (simp add: maxpool_example_padding)
  then have z: "cell out 0 0 = 0" "cell out 0 1 = 0" "cell out 1 0 = 0" "cell out 1 1 = 0"
    by (simp_all add: cell_def)
  from run c z have "apply_maxpool_2d ?x 2 2 None None 1 = Inr out
      \<and> cell out 1 0 = ?m
      \<and> cell out 0 0 = 0 \<and> cell out 0 1 = 0 \<and> cell out 1 0 = 0 \<and> cell out 1 1 = 0"
    by (intro conjI)
  then have "\<exists>out. apply_maxpool_2d ?x 2 2 None None 1 = Inr out
      \<and> cell out 1 0 = ?m
      \<and> cell out 0 0 = 0 \<and> cell out 0 1 = 0 \<and> cell out 1 0 = 0 \<and> cell out 1 1 = 0"
    by (rule exI)
  with wf sh show ?thesis
    by (intro conjI)
qed

section \<open>Properties of the pipeline\<close>

lemma example_run:
  "generate_pipeline_test_vectors example_numpy example_config 7 =
     Inr (\<lparr>res_A = Array2d 3 [[- 3, - 3, - 1], [0, - 1, 1], [- 3, 0, 1]],
           res_B = Array2d 3 [[- 2, 3, 1], [3, 2, 2], [1, - 1, - 1]],
           res_matmul = Array2d 3 [[- 4, - 14, - 8], [- 2, - 3, - 3], [7, - 10, - 4]],
           res_activated = Array2d 3 [[0, 0, 0], [0, 0, 0], [7, 0, 0]],
           res_pooled = Array2d 2 [[0, 0], [7, 0]],
           res_final = Array2d 2 [[0, 0], [7, 0]]\<rparr>,
          \<lparr>north_file = [''fffffffd'', ''fffffffd'', ''ffffffff'', ''00000000'',
              ''ffffffff'', ''00000001'', ''fffffffd'', ''00000000'', ''00000001''],
            west_file = [''fffffffe'', ''00000003'', ''00000001'', ''00000003'',
              ''00000002'', ''00000002'', ''00000001'', ''ffffffff'', ''ffffffff''],
            expected_file = [''00000000'']\<rparr>,
          60)"
  by code_simp

lemma map_array_shape [simp]:
  "nrows (map_array f a) = nrows a"
  "ncols (map_array f a) = ncols a"
  by (simp_all add: map_array_def nrows_def)

lemma wf_map_array: "wf_array a \<Longrightarrow> wf_array (map_array f a)"
  by (simp add: wf_array_def map_array_def list_all_iff)

lemma cell_map_array:
  "i < nrows a \<Longrightarrow> j < length (rows a ! i) \<Longrightarrow> cell (map_array f a) i j = f (cell a i j)"
  by (simp add: cell_def map_array_def nrows_def)

lemma apply_activation_shape [simp]:
  "nrows (apply_activation np x t) = nrows x"
  "ncols (apply_activation np x t) = ncols x"
  by (simp_all add: apply_activation_def)

lemma wf_apply_activation: "wf_array x \<Longrightarrow> wf_array (apply_activation np x t)"
  by (simp add: apply_activation_def wf_map_array)

lemma draw_list_length: "length (fst (draw_list d k g)) = k"
proof (induction k arbitrary: g)
  case 0
  show ?case by simp
next
  case (Suc k)
  obtain v g1 where v: "d g = (v, g1)"
    by (cases "d g")
  obtain vs g2 where vs: "draw_list d k g1 = (vs, g2)"
    by (cases "draw_list d k g1")
  from Suc [of g1] vs have "length vs = k" by simp
  then show ?case by (simp add: v vs)
qed

lemma draw_rows_shape:
  "length (fst (draw_rows d h w g)) = h \<and> list_all (\<lambda>r. length r = w) (fst (draw_rows d h w g))"
proof (induction h arbitrary: g)
  case 0
  show ?case by simp
next
  case (Suc h)
  obtain r g1 where r: "draw_list d w g = (r, g1)"
    by (cases "draw_list d w g")
  obtain rs g2 where rs: "draw_rows d h w g1 = (rs, g2)"
    by (cases "draw_rows d h w g1")
  from draw_list_length [of d w g] r have "length r = w" by simp
  moreover from Suc [of g1] rs have "length rs = h \<and> list_all (\<lambda>r. length r = w) rs" by simp
  ultimately show ?case by (simp add: r rs)
qed

lemma draw_array_shape:
  assumes "draw_array d h w g = (a, g')"
  shows "wf_array a \<and> nrows a = h \<and> ncols a = w"
  using assms draw_rows_shape [of d h w g]
  by (auto simp: draw_array_def wf_array_def nrows_def split: prod.splits)

lemma np_eye_shape: "wf_array (np_eye n) \<and> nrows (np_eye n) = n \<and> ncols (np_eye n) = n"
  by (simp add: np_eye_def wf_array_def nrows_def list_all_iff)

lemma np_ones_shape: "wf_array (np_ones n) \<and> nrows (np_ones n) = n \<and> ncols (np_ones n) = n"
  by (simp add: np_ones_def wf_array_def nrows_def list_all_iff)

lemma generate_matrices_shape:
  assumes "generate_matrices np cfg g = Inr (a, b, g')"
  shows "0 \<le> cfg_n cfg \<and> wf_array a \<and> nrows a = nat (cfg_n cfg) \<and> ncols a = nat (cfg_n cfg)
    \<and> wf_array b \<and> nrows b = nat (cfg_n cfg) \<and> ncols b = nat (cfg_n cfg)"
proof -
  from assms have n: "0 \<le> cfg_n cfg"
    by (auto simp: generate_matrices_def split: if_splits)
  let ?n = "nat (cfg_n cfg)"
  consider (eye) "cfg_matrix_type cfg = ''identity''"
    | (ones) "cfg_matrix_type cfg \<noteq> ''identity''" "cfg_matrix_type cfg = ''ones''"
    | (small) "cfg_matrix_type cfg \<noteq> ''identity''" "cfg_matrix_type cfg \<noteq> ''ones''"
        "cfg_matrix_type cfg = ''small_int''"
    | (random) "cfg_matrix_type cfg \<noteq> ''identity''" "cfg_matrix_type cfg \<noteq> ''ones''"
        "cfg_matrix_type cfg \<noteq> ''small_int''"
    by blast
  then have "wf_array a \<and> nrows a = ?n \<and> ncols a = ?n \<and> wf_array b \<and> nrows b = ?n \<and> ncols b = ?n"
  proof cases
    case eye
    with assms n show ?thesis
      by (auto simp: generate_matrices_def Let_def np_eye_shape)
  next
    case ones
    with assms n show ?thesis
      by (auto simp: generate_matrices_def Let_def np_ones_shape)
  next
    case small
    with assms n obtain a0 g1 b0 where
      "draw_array (random_randint np (- 3) 4) ?n ?n g = (a0, g1)"
      "draw_array (random_randint np (- 3) 4) ?n ?n g1 = (b0, g')"
      "a = map_array (float_of_int np) a0" "b = map_array (float_of_int np) b0"
      by (auto simp: generate_matrices_def Let_def split: prod.splits)
    then show ?thesis
      using draw_array_shape [of "random_randint np (- 3) 4" ?n ?n g a0 g1]
        draw_array_shape [of "random_randint np (- 3) 4" ?n ?n g1 b0 g']
      by (simp add: wf_map_array)
  next
    case random
    let ?d = "random_uniform np (fst (cfg_value_range cfg)) (snd (cfg_value_range cfg))"
    from random assms n obtain g1 where
      "draw_array ?d ?n ?n g = (a, g1)" "draw_array ?d ?n ?n g1 = (b, g')"
      by (auto simp: generate_matrices_def Let_def split: prod.splits)
    then show ?thesis
      using draw_array_shape [of ?d ?n ?n g a g1] draw_array_shape [of ?d ?n ?n g1 b g']
      by simp
  qed
  with n show ?thesis by simp
qed

lemma np_matmul_shape:
  assumes "np_matmul np a b = Inr c"
  shows "wf_array c \<and> nrows c = nrows a \<and> ncols c = ncols b"
  using assms
  by (auto simp: np_matmul_def wf_array_def nrows_def columns_def list_all_iff split: if_splits)


lemma slice_indices_prefix: "slice_indices n 0 5 = (0, min n 5)"
  by (simp add: slice_indices_def Let_def min_def)

lemma py_slice_prefix: "py_slice xs 0 5 = take 5 xs"
  by (simp add: py_slice_def slice_indices_prefix min_def)

lemma rows_maxpool_input: "rows (maxpool_input a) = map (take 5) (take 5 (rows a))"
  by (simp add: maxpool_input_def slice2d_def py_slice_prefix cong: map_cong)

lemma maxpool_input_shape [simp]:
  "nrows (maxpool_input a) = min (nrows a) 5"
  "ncols (maxpool_input a) = min (ncols a) 5"
  by (simp_all add: nrows_def rows_maxpool_input)
    (simp add: maxpool_input_def slice2d_def slice_indices_prefix)

lemma wf_maxpool_input: "wf_array a \<Longrightarrow> wf_array (maxpool_input a)"
  by (auto simp: wf_array_def rows_maxpool_input list_all_iff maxpool_input_shape
      dest: in_set_takeD)

lemma cell_maxpool_input:
  "i < min (nrows a) 5 \<Longrightarrow> j < 5 \<Longrightarrow> cell (maxpool_input a) i j = cell a i j"
  by (simp add: cell_def rows_maxpool_input nrows_def)

lemma apply_dropout_inference: "apply_dropout np x p False seed g = Inr (x, g)"
  by (simp add: apply_dropout_def)

lemma generate_pipeline_test_vectors_Inr:
  assumes "generate_pipeline_test_vectors np cfg g = Inr (res, files, g')"
  shows "\<exists>g0 a b c.
    (case cfg_seed cfg of None \<Rightarrow> Inr g | Some s \<Rightarrow> np_random_seed np s) = Inr g0
    \<and> generate_matrices np cfg g0 = Inr (a, b, g')
    \<and> np_matmul np a b = Inr c
    \<and> res_A res = a \<and> res_B res = b \<and> res_matmul res = c
    \<and> res_activated res = apply_activation np c (cfg_activation_type cfg)
    \<and> apply_maxpool_2d (maxpool_input (res_activated res)) (cfg_pool_h cfg) (cfg_pool_w cfg)
          None None (cfg_pool_padding cfg) = Inr (res_pooled res)
    \<and> res_final res = res_pooled res
    \<and> write_files np a b (res_final res) = Inr files"
  using assms
  by (auto simp: generate_pipeline_test_vectors_def Let_def apply_dropout_inference
      split: sum.splits prod.splits)


lemma example_run_identity:
  "(case generate_pipeline_test_vectors example_numpy
           (example_config \<lparr> cfg_n := 6, cfg_matrix_type := ''identity'' \<rparr>) 7 of
      Inl e \<Rightarrow> False
    | Inr (res, files, g') \<Rightarrow> res_activated res = np_eye 6 \<and> res_pooled res = np_eye 3)"
  by code_simp

lemma unseeded_run_depends_on_state:
  "generate_pipeline_test_vectors example_numpy (example_config \<lparr> cfg_n := 1, cfg_seed := None \<rparr>) 7
     \<noteq> generate_pipeline_test_vectors example_numpy
         (example_config \<lparr> cfg_n := 1, cfg_seed := None \<rparr>) 8"
  by code_simp

lemma empty_matrix_IndexError:
  "generate_pipeline_test_vectors example_numpy (example_config \<lparr> cfg_n := 0 \<rparr>) 7 = Inl IndexError"
  by code_simp

lemma empty_pool_output_IndexError:
  "generate_pipeline_test_vectors example_numpy
     (example_config \<lparr> cfg_n := 0, cfg_pool_padding := 0 \<rparr>) 7 = Inl IndexError"
  by code_simp

text \<open>
  Claim C6 (activation fallback). For every 2D input \<open>x\<close> and every mode tag outside the
  recognized set, \<open>apply_activation\<close> returns \<open>x\<close> unchanged, and no error can be raised (the
  function is total); for the tag \<^verbatim>\<open>relu\<close> it computes \<open>max 0\<close> of every element, and the
  shape of the result is the shape of the input for every tag.
\<close>

theorem apply_activation_fallback:
  "(activation_type \<notin> {''relu'', ''sigmoid'', ''tanh'', ''none''} \<longrightarrow>
      apply_activation np x activation_type = x)
   \<and> apply_activation np x ''none'' = x
   \<and> apply_activation np x ''relu'' = map_array (max 0) x
   \<and> shape (apply_activation np x activation_type) = shape x
   \<and> (\<forall>i j. i < nrows x \<longrightarrow> j < length (rows x ! i) \<longrightarrow>
          cell (apply_activation np x ''relu'') i j = max 0 (cell x i j))"
proof -
  have "apply_activation np x activation_type = x"
    if "activation_type \<notin> {''relu'', ''sigmoid'', ''tanh'', ''none''}"
    using that by (simp add: apply_activation_def)
  moreover have "apply_activation np x ''none'' = x"
    by (simp add: apply_activation_def)
  moreover have relu: "apply_activation np x ''relu'' = map_array (max 0) x"
    by (simp add: apply_activation_def)
  moreover have "shape (apply_activation np x activation_type) = shape x"
    by (simp add: shape_def)
  moreover have "cell (apply_activation np x ''relu'') i j = max 0 (cell x i j)"
    if "i < nrows x" and "j < length (rows x ! i)" for i j
    unfolding relu using that by (rule cell_map_array)
  ultimately show ?thesis
    by blast
qed

theorem apply_activation_fallback_witness:
  "''leaky'' \<notin> {''relu'', ''sigmoid'', ''tanh'', ''none''}
   \<and> apply_activation example_numpy (Array2d 3 [[- 2, 0, 3]]) ''leaky'' = Array2d 3 [[- 2, 0, 3]]
   \<and> apply_activation example_numpy (Array2d 3 [[- 2, 0, 3]]) ''relu'' = Array2d 3 [[0, 0, 3]]
   \<and> cell (apply_activation example_numpy (Array2d 3 [[- 2, 0, 3]]) ''relu'') 0 0 = 0"
proof -
  let ?x = "Array2d 3 [[- 2, 0, 3 :: int]]"
  note t = apply_activation_fallback [of "''leaky''" example_numpy ?x]
  have tag: "''leaky'' \<notin> {''relu'', ''sigmoid'', ''tanh'', ''none''}"
    by simp
  have 1: "apply_activation example_numpy ?x ''leaky'' = ?x"
    by (rule t [THEN conjunct1, THEN mp]) (rule tag)
  have "apply_activation example_numpy ?x ''relu'' = map_array (max 0) ?x"
    by (rule t [THEN conjunct2, THEN conjunct2, THEN conjunct1])
  then have 2: "apply_activation example_numpy ?x ''relu'' = Array2d 3 [[0, 0, 3]]"
    by (simp add: map_array_def)
  then have 3: "cell (apply_activation example_numpy ?x ''relu'') 0 0 = 0"
    by (simp add: cell_def)
  from tag 1 2 3 show ?thesis
    by (intro conjI)
qed

text \<open>
  Claim C7 (dropout in inference mode). With \<open>training_mode\<close> false, \<open>apply_dropout\<close> returns
  its input exactly, for every input array, probability and seed, and leaves the random
  generator as it is; hence in every run of the pipeline that returns, \<open>final\<close> is \<open>pooled\<close>.
\<close>

theorem dropout_inference_identity:
  "apply_dropout np x dropout_p False seed g = Inr (x, g)
   \<and> (generate_pipeline_test_vectors np cfg g0 = Inr (res, files, g') \<longrightarrow>
        res_final res = res_pooled res)"
proof (intro conjI impI)
  show "apply_dropout np x dropout_p False seed g = Inr (x, g)"
    by (rule apply_dropout_inference)
next
  assume "generate_pipeline_test_vectors np cfg g0 = Inr (res, files, g')"
  from generate_pipeline_test_vectors_Inr [OF this] show "res_final res = res_pooled res"
    by blast
qed

theorem dropout_inference_identity_witness:
  "apply_dropout example_numpy (Array2d 2 [[0, 0], [7, 0]]) 0 False (Some 1) 60
     = Inr (Array2d 2 [[0, 0], [7, 0]], 60)
   \<and> (\<exists>res files g'.
         generate_pipeline_test_vectors example_numpy example_config 7 = Inr (res, files, g')
         \<and> res_pooled res = Array2d 2 [[0, 0], [7, 0]]
         \<and> res_final res = res_pooled res)"
proof -
  obtain res files g' where
    run: "generate_pipeline_test_vectors example_numpy example_config 7 = Inr (res, files, g')"
    and pooled: "res_pooled res = Array2d 2 [[0, 0], [7, 0]]"
    using example_run by simp
  note t = dropout_inference_identity [of example_numpy _ _ _ _ example_config 7 res files g']
  from run have "res_final res = res_pooled res"
    by (rule t [THEN conjunct2, THEN mp])
  with run pooled have "\<exists>res files g'.
         generate_pipeline_test_vectors example_numpy example_config 7 = Inr (res, files, g')
         \<and> res_pooled res = Array2d 2 [[0, 0], [7, 0]]
         \<and> res_final res = res_pooled res"
    by blast
  moreover have "apply_dropout example_numpy (Array2d 2 [[0, 0], [7, 0]]) 0 False (Some 1) 60
     = Inr (Array2d 2 [[0, 0], [7, 0]], 60)"
    by (rule dropout_inference_identity [THEN conjunct1])
  ultimately show ?thesis
    by (intro conjI)
qed

text \<open>
  Claim C8 (fixed sub-region). In every run of the pipeline that returns, for a matrix size
  \<open>N\<close>, the activated matrix is \<open>N\<close> by \<open>N\<close>, the input of max pooling is its top-left region
  of \<open>min N 5\<close> rows and \<open>min N 5\<close> columns, cell for cell and with nothing added, and
  \<open>pooled\<close> is the result of max pooling on that region.
\<close>

theorem maxpool_input_region:
  assumes "generate_pipeline_test_vectors np cfg g = Inr (res, files, g')"
  shows "0 \<le> cfg_n cfg
    \<and> shape (res_activated res) = (nat (cfg_n cfg), nat (cfg_n cfg))
    \<and> shape (maxpool_input (res_activated res)) = (min (nat (cfg_n cfg)) 5, min (nat (cfg_n cfg)) 5)
    \<and> (\<forall>i<min (nat (cfg_n cfg)) 5. \<forall>j<min (nat (cfg_n cfg)) 5.
          cell (maxpool_input (res_activated res)) i j = cell (res_activated res) i j)
    \<and> apply_maxpool_2d (maxpool_input (res_activated res)) (cfg_pool_h cfg) (cfg_pool_w cfg)
          None None (cfg_pool_padding cfg) = Inr (res_pooled res)"
proof -
  from generate_pipeline_test_vectors_Inr [OF assms] obtain g0 a b c where
    gen: "generate_matrices np cfg g0 = Inr (a, b, g')"
    and mm: "np_matmul np a b = Inr c"
    and act: "res_activated res = apply_activation np c (cfg_activation_type cfg)"
    and pool: "apply_maxpool_2d (maxpool_input (res_activated res)) (cfg_pool_h cfg)
          (cfg_pool_w cfg) None None (cfg_pool_padding cfg) = Inr (res_pooled res)"
    by blast
  let ?n = "nat (cfg_n cfg)"
  from generate_matrices_shape [OF gen] have n: "0 \<le> cfg_n cfg"
    and "nrows a = ?n" and "ncols b = ?n"
    by simp_all
  with np_matmul_shape [OF mm] have "nrows c = ?n" and "ncols c = ?n"
    by simp_all
  then have dims: "nrows (res_activated res) = ?n" "ncols (res_activated res) = ?n"
    by (simp_all add: act)
  then have "shape (res_activated res) = (?n, ?n)"
    and "shape (maxpool_input (res_activated res)) = (min ?n 5, min ?n 5)"
    by (simp_all add: shape_def)
  moreover have "cell (maxpool_input (res_activated res)) i j = cell (res_activated res) i j"
    if "i < min ?n 5" and "j < min ?n 5" for i j
    using that by (intro cell_maxpool_input) (simp_all add: dims)
  ultimately show ?thesis
    using n pool by blast
qed

theorem maxpool_input_region_witness:
  "(\<exists>res files g'.
      generate_pipeline_test_vectors example_numpy example_config 7 = Inr (res, files, g')
      \<and> shape (res_activated res) = (3, 3)
      \<and> shape (maxpool_input (res_activated res)) = (3, 3)
      \<and> cell (maxpool_input (res_activated res)) 2 0 = cell (res_activated res) 2 0)
   \<and> (\<exists>res files g'.
      generate_pipeline_test_vectors example_numpy
        (example_config \<lparr> cfg_n := 6, cfg_matrix_type := ''identity'' \<rparr>) 7 = Inr (res, files, g')
      \<and> shape (res_activated res) = (6, 6)
      \<and> shape (maxpool_input (res_activated res)) = (5, 5)
      \<and> cell (maxpool_input (res_activated res)) 4 4 = cell (res_activated res) 4 4)"
proof -
  obtain res files g' where
    run: "generate_pipeline_test_vectors example_numpy example_config 7 = Inr (res, files, g')"
    using example_run by simp
  have n: "cfg_n example_config = 3"
    by (simp add: example_config_def)
  note t = maxpool_input_region [OF run, unfolded n]
  from t have "shape (res_activated res) = (3, 3)"
    and "shape (maxpool_input (res_activated res)) = (3, 3)"
    by simp_all
  moreover from t have "\<forall>i<min (nat 3) 5. \<forall>j<min (nat 3) 5.
      cell (maxpool_input (res_activated res)) i j = cell (res_activated res) i j"
    by (elim conjE)
  then have "cell (maxpool_input (res_activated res)) 2 0 = cell (res_activated res) 2 0"
    by simp
  ultimately have small: "\<exists>res files g'.
      generate_pipeline_test_vectors example_numpy example_config 7 = Inr (res, files, g')
      \<and> shape (res_activated res) = (3, 3)
      \<and> shape (maxpool_input (res_activated res)) = (3, 3)
      \<and> cell (maxpool_input (res_activated res)) 2 0 = cell (res_activated res) 2 0"
    using run by blast
  let ?cfg = "example_config \<lparr> cfg_n := 6, cfg_matrix_type := ''identity'' \<rparr>"
  obtain res6 files6 g6 where
    run6: "generate_pipeline_test_vectors example_numpy ?cfg 7 = Inr (res6, files6, g6)"
    using example_run_identity
    by (cases "generate_pipeline_test_vectors example_numpy ?cfg 7") auto
  have n6: "cfg_n ?cfg = 6"
    by simp
  note t6 = maxpool_input_region [OF run6, unfolded n6]
  from t6 have "shape (res_activated res6) = (6, 6)"
    and "shape (maxpool_input (res_activated res6)) = (5, 5)"
    by simp_all
  moreover from t6 have "\<forall>i<min (nat 6) 5. \<forall>j<min (nat 6) 5.
      cell (maxpool_input (res_activated res6)) i j = cell (res_activated res6) i j"
    by (elim conjE)
  then have "cell (maxpool_input (res_activated res6)) 4 4 = cell (res_activated res6) 4 4"
    by simp
  ultimately have large: "\<exists>res files g'.
      generate_pipeline_test_vectors example_numpy ?cfg 7 = Inr (res, files, g')
      \<and> shape (res_activated res) = (6, 6)
      \<and> shape (maxpool_input (res_activated res)) = (5, 5)
      \<and> cell (maxpool_input (res_activated res)) 4 4 = cell (res_activated res) 4 4"
    using run6 by blast
  from small large show ?thesis
    by (rule conjI)
qed

text \<open>
  Claim C9 (determinism). With a seed in the configuration, the arrays returned by
  \<open>generate_pipeline_test_vectors\<close>, the files it writes and the state in which it leaves the
  random generator do not depend on the state of the global random generator at the call:
  two invocations with the same seed and configuration give the same result.
\<close>

theorem pipeline_deterministic:
  "cfg_seed cfg = Some s \<Longrightarrow>
    generate_pipeline_test_vectors np cfg g1 = generate_pipeline_test_vectors np cfg g2"
  by (simp add: generate_pipeline_test_vectors_def)

theorem pipeline_deterministic_witness:
  "cfg_seed example_config = Some 42
   \<and> generate_pipeline_test_vectors example_numpy example_config 99
       = generate_pipeline_test_vectors example_numpy example_config 7"
proof -
  have seed: "cfg_seed example_config = Some 42"
    by (simp add: example_config_def)
  from seed have "generate_pipeline_test_vectors example_numpy example_config 99
       = generate_pipeline_test_vectors example_numpy example_config 7"
    by (rule pipeline_deterministic)
  with seed show ?thesis
    by (intro conjI)
qed


section \<open>Dropout in training mode\<close>

lemma draw_list_const:
  assumes "\<And>g. fst (d g) = v"
  shows "fst (draw_list d k g) = replicate k v"
proof (induction k arbitrary: g)
  case 0
  show ?case by simp
next
  case (Suc k)
  obtain u g1 where u: "d g = (u, g1)"
    by (cases "d g")
  obtain us g2 where us: "draw_list d k g1 = (us, g2)"
    by (cases "draw_list d k g1")
  from assms [of g] u have "u = v" by simp
  moreover from Suc [of g1] us have "us = replicate k v" by simp
  ultimately show ?case by (simp add: u us)
qed

lemma draw_rows_const:
  assumes "\<And>g. fst (d g) = v"
  shows "fst (draw_rows d h w g) = replicate h (replicate w v)"
proof (induction h arbitrary: g)
  case 0
  show ?case by simp
next
  case (Suc h)
  obtain r g1 where r: "draw_list d w g = (r, g1)"
    by (cases "draw_list d w g")
  obtain rs g2 where rs: "draw_rows d h w g1 = (rs, g2)"
    by (cases "draw_rows d h w g1")
  from draw_list_const [of d v w g, OF assms] r have "r = replicate w v" by simp
  moreover from Suc [of g1] rs have "rs = replicate h (replicate w v)" by simp
  ultimately show ?case by (simp add: r rs)
qed

lemma draw_array_const:
  assumes "\<And>g. fst (d g) = v"
  shows "\<exists>g'. draw_array d h w g = (Array2d w (replicate h (replicate w v)), g')"
  using draw_rows_const [of d v h w g, OF assms]
  by (cases "draw_rows d h w g") (simp add: draw_array_def)

lemma map2_replicate:
  "length xs = n \<Longrightarrow> map2 f xs (replicate n c) = map (\<lambda>x. f x c) xs"
  by (induction xs arbitrary: n) auto

lemma ieee_zero_over_zero:
  "ieee_div rnd (ieee_mul rnd v (ieee_of_int rnd 0)) (Fin 0) = NaN"
  by (cases v) (simp_all add: ieee_of_int_def)

lemma ieee_one_minus_one: "ieee_sub rnd (ieee_of_int rnd 1) (Fin 1) = Fin 0"
  by (simp add: ieee_of_int_def)

lemma ieee_binomial_zero: "fst (ieee_binomial draw (Fin 0) g) = 0"
  by (simp add: ieee_binomial_def split: prod.splits)

text \<open>
  Claim C10 (dropout in training mode with probability 1). With \<open>dropout_p = 1\<close> the
  denominator \<open>1 - dropout_p\<close> is zero, and \<open>apply_dropout\<close> neither checks the probability
  nor raises an error: for every input array, whatever its values, the rounding and the
  generator, and for every seed that \<^verbatim>\<open>np.random.seed\<close> accepts, it returns an array of the
  shape of the input whose elements are all NaN.
\<close>

theorem dropout_training_p_one:
  assumes "wf_array x"
    and "case seed of None \<Rightarrow> True | Some s \<Rightarrow> 0 \<le> s \<and> s < 2 ^ 32"
  shows "float_sub (ieee_numpy rnd np) (float_of_int (ieee_numpy rnd np) 1) (Fin 1) = Fin 0
    \<and> (\<exists>g'. apply_dropout (ieee_numpy rnd np) x (Fin 1) True seed g
            = Inr (map_array (\<lambda>v. NaN) x, g'))"
proof -
  let ?np = "ieee_numpy rnd np"
  have fields: "float_of_int ?np = ieee_of_int rnd" "float_sub ?np = ieee_sub rnd"
    "float_mul ?np = ieee_mul rnd" "float_div ?np = ieee_div rnd"
    "binomial_valid ?np = ieee_binomial_valid"
    "random_binomial ?np = ieee_binomial (random_binomial np)"
    by (simp_all add: ieee_numpy_def)
  have keep: "float_sub ?np (float_of_int ?np 1) (Fin 1) = Fin 0"
    by (simp add: fields ieee_one_minus_one)
  from assms(2) obtain g1 where seed:
    "(case seed of None \<Rightarrow> Inr g | Some s \<Rightarrow> np_random_seed ?np s) = Inr g1"
    by (cases seed) (simp_all add: np_random_seed_def)
  obtain g2 where mask: "draw_array (ieee_binomial (random_binomial np) (Fin 0))
      (nrows x) (ncols x) g1
        = (Array2d (ncols x) (replicate (nrows x) (replicate (ncols x) 0)), g2)"
    using draw_array_const [of "ieee_binomial (random_binomial np) (Fin 0)" 0
        "nrows x" "ncols x" g1]
    by (auto simp: ieee_binomial_zero)
  let ?f = "\<lambda>v m. ieee_div rnd (ieee_mul rnd v (ieee_of_int rnd (int m))) (Fin 0)"
  have row: "map2 ?f r (replicate (ncols x) 0) = map (\<lambda>v. NaN) r" if "r \<in> set (rows x)" for r
  proof -
    from assms(1) that have "length r = ncols x"
      by (simp add: wf_array_def list_all_iff)
    then show ?thesis
      by (simp add: map2_replicate ieee_zero_over_zero)
  qed
  have "map2 (map2 ?f) (rows x) (replicate (nrows x) (replicate (ncols x) 0)) =
      map (\<lambda>r. map2 ?f r (replicate (ncols x) 0)) (rows x)"
    by (rule map2_replicate) (simp add: nrows_def)
  also have "\<dots> = map (map (\<lambda>v. NaN)) (rows x)"
    by (rule map_cong [OF refl]) (rule row)
  finally have cells: "map2 (map2 ?f) (rows x) (replicate (nrows x) (replicate (ncols x) 0)) =
      map (map (\<lambda>v. NaN)) (rows x)" .
  have valid: "ieee_binomial_valid (Fin 0)"
    by (simp add: ieee_binomial_valid_def)
  have "apply_dropout ?np x (Fin 1) True seed g = Inr (map_array (\<lambda>v. NaN) x, g2)"
    unfolding apply_dropout_def keep seed
    by (simp add: fields valid mask cells map_array_def)
  with keep show ?thesis
    by blast
qed

theorem dropout_training_p_one_witness:
  "wf_array (Array2d 2 [[Fin (- 1), Fin 2], [PInf, NaN]]) \<and>
   (\<exists>g'. apply_dropout (ieee_numpy Fin example_ieee_numpy)
            (Array2d 2 [[Fin (- 1), Fin 2], [PInf, NaN]]) (Fin 1) True (Some 42) 7
          = Inr (Array2d 2 [[NaN, NaN], [NaN, NaN]], g'))"
proof -
  let ?x = "Array2d 2 [[Fin (- 1), Fin 2], [PInf, NaN]]"
  have wf: "wf_array ?x"
    by (simp add: wf_array_def)
  have seed: "case Some (42 :: int) of None \<Rightarrow> True | Some s \<Rightarrow> 0 \<le> s \<and> s < 2 ^ 32"
    by simp
  from dropout_training_p_one [OF wf seed, of Fin example_ieee_numpy 7, THEN conjunct2]
  obtain g' where "apply_dropout (ieee_numpy Fin example_ieee_numpy) ?x (Fin 1) True (Some 42) 7
      = Inr (map_array (\<lambda>v. NaN) ?x, g')"
    by blast
  then have "apply_dropout (ieee_numpy Fin example_ieee_numpy) ?x (Fin 1) True (Some 42) 7
      = Inr (Array2d 2 [[NaN, NaN], [NaN, NaN]], g')"
    by (simp add: map_array_def)
  then have "\<exists>g'. apply_dropout (ieee_numpy Fin example_ieee_numpy) ?x (Fin 1) True (Some 42) 7
      = Inr (Array2d 2 [[NaN, NaN], [NaN, NaN]], g')"
    by (rule exI)
  with wf show ?thesis
    by (rule conjI)
qed


end
